theory Spec2Isabelle
  imports Main
begin

section \<open>Backpack override detector: the data of a scan\<close>

text \<open>
  The program is the user script \<^verbatim>\<open>backpack-override-detector.js\<close>. Selector strings,
  property names and class names are JavaScript strings; they are modelled as
  \<^typ>\<open>string\<close>. Every test the script makes on them (a prefix, a character class) is on
  ASCII characters.
\<close>

definition startsWith :: "string \<Rightarrow> string \<Rightarrow> bool" where
  \<comment> \<open>\<^verbatim>\<open>str.startsWith(searchString)\<close>\<close>
  "startsWith str searchString = (take (length searchString) str = searchString)"

text \<open>
  An entry of \<^verbatim>\<open>rule.styleMap.entries()\<close> is a property name with the array of the
  declaration's \<^verbatim>\<open>CSSStyleValue\<close> objects. Each object is modelled by its own
  serialisation; \<^verbatim>\<open>toString()\<close> of the array joins them with commas.
\<close>

type_synonym css_value = "string list"

fun joinComma :: "string list \<Rightarrow> string" where
  "joinComma [] = []"
| "joinComma [x] = x"
| "joinComma (x # y # ys) = x @ '','' @ joinComma (y # ys)"

definition getValue :: "css_value \<Rightarrow> string" where
  \<comment> \<open>\<^verbatim>\<open>const getValue = (v) => v.toString();\<close>\<close>
  "getValue v = joinComma v"

record cssRule =
  selectorText :: string
  styleMap :: "(string \<times> css_value) list"

text \<open>The object literal returned for an overridden property (lines 218 to 223).\<close>

record override =
  key :: string
  before :: string
  after :: string
  rule :: string

subsection \<open>Rule classification\<close>

definition isBackpackClassRule :: "cssRule \<Rightarrow> bool" where
  "isBackpackClassRule r = startsWith (selectorText r) ''.Bpk''"

definition classChars :: string where
  \<comment> \<open>the character class \<^verbatim>\<open>[a-zA-Z0-9_-]\<close>\<close>
  "classChars = ''abcdefghijklmnopqrstuvwxyzABCDEFGHIJKLMNOPQRSTUVWXYZ0123456789_-''"

fun matchClassSelector :: "string \<Rightarrow> bool" where
  \<comment> \<open>\<^verbatim>\<open>/^\.[a-zA-Z0-9_-]+$/\<close>: a dot, then one or more class characters, then the end\<close>
  "matchClassSelector [] = False"
| "matchClassSelector (c # cs) = (c = CHR ''.'' \<and> cs \<noteq> [] \<and> list_all (\<lambda>x. x \<in> set classChars) cs)"

definition isNonBackpackClassRule :: "cssRule \<Rightarrow> bool" where
  "isNonBackpackClassRule r =
     (startsWith (selectorText r) ''.'' \<and> matchClassSelector (selectorText r))"

subsection \<open>The override resolver (the callback of \<^verbatim>\<open>rules.reduce\<close> in \<^verbatim>\<open>scan\<close>)\<close>

text \<open>
  The \<^verbatim>\<open>for (const afterRule of afterRules)\<close> loop of lines 184 to 224, for the
  property \<open>(k, v)\<close> of the rule \<open>r\<close>. \<open>None\<close> is the source's \<^verbatim>\<open>undefined\<close>. The
  source's names \<^verbatim>\<open>key\<close>, \<^verbatim>\<open>value\<close> and \<^verbatim>\<open>rule\<close> are \<open>k\<close>, \<open>v\<close> and \<open>r\<close> here, since
  \<open>key\<close> and \<open>rule\<close> name the fields of the result.
\<close>

fun forAfterRules :: "cssRule \<Rightarrow> string \<Rightarrow> css_value \<Rightarrow> cssRule list \<Rightarrow> override option" where
  "forAfterRules r k v [] = None"
| "forAfterRules r k v (afterRule # rest) =
     (case find (\<lambda>(bKey, _). bKey = k) (styleMap afterRule) of
        None \<Rightarrow> forAfterRules r k v rest
      | Some matchingProp \<Rightarrow>
          if \<not> startsWith (selectorText afterRule) ''.Bpk'' then None
          else if getValue (snd matchingProp) = getValue v then None
          else Some \<lparr>key = k, before = getValue v, after = getValue (snd matchingProp),
                     rule = selectorText r\<rparr>)"

definition checkProperty :: "cssRule list \<Rightarrow> cssRule \<Rightarrow> nat \<Rightarrow> string \<times> css_value \<Rightarrow> override option" where
  \<comment> \<open>the callback of \<^verbatim>\<open>properties.map\<close>: \<^verbatim>\<open>rules.slice(index + 1)\<close>, reversed, then the loop\<close>
  "checkProperty rules r index = (\<lambda>(k, v).
     let afterRules = rev (drop (index + 1) rules)
     in forAfterRules r k v afterRules)"

definition overridden :: "cssRule list \<Rightarrow> cssRule \<Rightarrow> nat \<Rightarrow> override list" where
  \<comment> \<open>\<^verbatim>\<open>properties.map(...).filter((p) => p)\<close>\<close>
  "overridden rules r index =
     List.map_filter (\<lambda>p. p) (map (checkProperty rules r index) (styleMap r))"

definition reduceStep :: "cssRule list \<Rightarrow> override list \<Rightarrow> cssRule \<times> nat \<Rightarrow> override list" where
  "reduceStep rules acc = (\<lambda>(r, index).
     if isBackpackClassRule r \<or> \<not> isNonBackpackClassRule r then acc
     else (let ov = overridden rules r index
           in if length ov > 0 then acc @ ov else acc))"

definition computeOverriddenProperties :: "cssRule list \<Rightarrow> override list" where
  \<comment> \<open>\<^verbatim>\<open>rules.reduce((acc, rule, index) => ..., [])\<close>\<close>
  "computeOverriddenProperties rules =
     foldl (reduceStep rules) [] (zip rules [0..<length rules])"

text \<open>
  The test \<^verbatim>\<open>if (!matchingProp) continue\<close> of the loop, as a predicate: the rule \<open>a\<close> has
  an entry for the property \<open>k\<close>.
\<close>

definition declares :: "cssRule \<Rightarrow> string \<Rightarrow> bool" where
  "declares a k = (find (\<lambda>(bKey, _). bKey = k) (styleMap a) \<noteq> None)"

text \<open>
  The guard of line 165 sorts the matched rules into three kinds. A rule the guard lets
  through is a single-class rule outside the \<^verbatim>\<open>.Bpk\<close> prefix; a rule it skips is either a
  Backpack rule or neither of the two.
\<close>

definition isAuthorCandidate :: "cssRule \<Rightarrow> bool" where
  "isAuthorCandidate r = (\<not> (isBackpackClassRule r \<or> \<not> isNonBackpackClassRule r))"

definition isIrrelevant :: "cssRule \<Rightarrow> bool" where
  "isIrrelevant r = (\<not> isBackpackClassRule r \<and> \<not> isNonBackpackClassRule r)"

section \<open>Exceptions and callbacks\<close>

text \<open>
  A JavaScript statement either completes normally or throws. A statement that works on
  a state \<open>'w\<close> is a function from the state to its completion and the state it leaves;
  what it did before it threw stays done. An exception value is modelled by its message.
\<close>

type_synonym exn = string

datatype completion = Normal | Throw exn

type_synonym 'w cmd = "'w \<Rightarrow> completion \<times> 'w"

definition seq :: "'w cmd \<Rightarrow> 'w cmd \<Rightarrow> 'w cmd" where
  \<comment> \<open>\<^verbatim>\<open>first; second\<close>: the second statement runs only when the first completes normally\<close>
  "seq first second w =
     (case first w of (Normal, w') \<Rightarrow> second w' | (Throw e, w') \<Rightarrow> (Throw e, w'))"

fun forEach :: "('a \<Rightarrow> 'w cmd) \<Rightarrow> 'a list \<Rightarrow> 'w cmd" where
  \<comment> \<open>\<^verbatim>\<open>xs.forEach(f)\<close>: an exception of the callback ends the iteration\<close>
  "forEach f [] w = (Normal, w)"
| "forEach f (x # xs) w =
     (case f x w of (Normal, w') \<Rightarrow> forEach f xs w' | (Throw e, w') \<Rightarrow> (Throw e, w'))"

definition tryCatch :: "'w cmd \<Rightarrow> (exn \<Rightarrow> 'w cmd) \<Rightarrow> 'w cmd" where
  \<comment> \<open>\<^verbatim>\<open>try { body } catch (e) { handler }\<close>\<close>
  "tryCatch body handler w =
     (case body w of (Normal, w') \<Rightarrow> (Normal, w') | (Throw e, w') \<Rightarrow> handler e w')"

section \<open>Matching the style rules of an element (\<^verbatim>\<open>findCssRules\<close>)\<close>

record element =
  tagName :: string
  classList :: "string list"

text \<open>
  Reading \<^verbatim>\<open>sheet.rules || sheet.cssRules\<close> throws for a sheet of another origin, so the
  rule list of a sheet is a result. The document holds its elements in tree order, its
  style sheets, and the selector engine behind \<^verbatim>\<open>el.matches(selector)\<close>, which throws a
  \<^verbatim>\<open>SyntaxError\<close> for a selector it cannot parse. \<open>tagName\<close> is the element's local name,
  in lower case as type selectors compare it in an HTML document.
\<close>

record styleSheet =
  cssRules :: "exn + cssRule list"

record document =
  allElements :: "element list"
  styleSheets :: "styleSheet list"
  matches :: "element \<Rightarrow> string \<Rightarrow> exn + bool"

definition pushIfMatches :: "(string \<Rightarrow> exn + bool) \<Rightarrow> cssRule \<Rightarrow> (cssRule list) cmd" where
  \<comment> \<open>\<^verbatim>\<open>if (matches(rule.selectorText)) { ret.push(rule); }\<close>, the state being \<^verbatim>\<open>ret\<close>\<close>
  "pushIfMatches m r ret =
     (case m (selectorText r) of
        Inl e \<Rightarrow> (Throw e, ret)
      | Inr b \<Rightarrow> (Normal, if b then ret @ [r] else ret))"

definition sheetRules :: "(string \<Rightarrow> exn + bool) \<Rightarrow> styleSheet \<Rightarrow> (cssRule list) cmd" where
  \<comment> \<open>the body of the \<^verbatim>\<open>try\<close> block, lines 123 to 128\<close>
  "sheetRules m sheet ret =
     (case cssRules sheet of
        Inl e \<Rightarrow> (Throw e, ret)
      | Inr rules \<Rightarrow> forEach (pushIfMatches m) rules ret)"

definition findCssRules :: "document \<Rightarrow> element \<Rightarrow> cssRule list" where
  "findCssRules doc el =
     snd (forEach (\<lambda>sheet. tryCatch (sheetRules (matches doc el) sheet) (\<lambda>e ret. (Normal, ret)))
            (styleSheets doc) [])"

section \<open>The scan\<close>

definition hasOwnNonBackpackClass :: "element \<Rightarrow> bool" where
  "hasOwnNonBackpackClass e = list_ex (\<lambda>cn. \<not> startsWith cn ''Bpk'') (classList e)"

record scanResult =
  element :: element
  overriddenProperties :: "override list"

definition scanSelector :: "string list" where
  \<comment> \<open>the selector list \<^verbatim>\<open>"div,span,h1,h2,h3,h4,li,a,button"\<close>, one type selector each\<close>
  "scanSelector = [''div'', ''span'', ''h1'', ''h2'', ''h3'', ''h4'', ''li'', ''a'', ''button'']"

definition querySelectorAll :: "document \<Rightarrow> string list \<Rightarrow> element list" where
  \<comment> \<open>for a list of type selectors: the elements with one of these names, in tree order\<close>
  "querySelectorAll doc tags = filter (\<lambda>e. tagName e \<in> set tags) (allElements doc)"

definition scanElement :: "document \<Rightarrow> element \<Rightarrow> scanResult option" where
  \<comment> \<open>the callback of \<^verbatim>\<open>elements.map\<close>; \<open>None\<close> is the source's \<^verbatim>\<open>false\<close>\<close>
  "scanElement doc e =
     (if \<not> hasOwnNonBackpackClass e then None
      else (let rules = findCssRules doc e
            in Some \<lparr>element = e, overriddenProperties = computeOverriddenProperties rules\<rparr>))"

definition scan :: "document \<Rightarrow> scanResult list" where
  "scan doc =
     (let elements = querySelectorAll doc scanSelector
      in List.map_filter (\<lambda>p. p)
           (filter (\<lambda>p. case p of None \<Rightarrow> False
                               | Some res \<Rightarrow> length (overriddenProperties res) > 0)
              (map (scanElement doc) elements)))"

section \<open>The event emitter and the toggle that uses it\<close>

text \<open>
  The world a handler runs in: the console, the toggle's private \<^verbatim>\<open>state\<close> with the two
  style properties \<^verbatim>\<open>updateDisplay\<close> writes, and the rest of the page. A handler takes
  the arguments of the event and may throw.
\<close>

record 'p world =
  console :: "exn list"
  state :: bool
  innerLeft :: string
  innerBackground :: string
  page :: 'p

type_synonym ('d, 'p) handler = "'d \<Rightarrow> ('p world) cmd"

text \<open>
  \<^verbatim>\<open>this.handlers\<close> is an object literal, so a look-up by event name finds the array
  stored by \<^verbatim>\<open>on\<close>, nothing, or a member inherited from \<^verbatim>\<open>Object.prototype\<close>, which is
  truthy and is no array.
\<close>

datatype ('d, 'p) slot = Undefined | Handlers "('d, 'p) handler list" | Inherited

record ('d, 'p) eventEmitter =
  handlers :: "string \<Rightarrow> ('d, 'p) slot"

definition objectPrototypeKeys :: "string list" where
  "objectPrototypeKeys = [''constructor'', ''hasOwnProperty'', ''isPrototypeOf'',
     ''propertyIsEnumerable'', ''toLocaleString'', ''toString'', ''valueOf'', ''__proto__'',
     ''__defineGetter__'', ''__defineSetter__'', ''__lookupGetter__'', ''__lookupSetter__'']"

definition newEventEmitter :: "('d, 'p) eventEmitter" where
  \<comment> \<open>\<^verbatim>\<open>this.handlers = {}\<close>\<close>
  "newEventEmitter =
     \<lparr>handlers = (\<lambda>event. if event \<in> set objectPrototypeKeys then Inherited else Undefined)\<rparr>"

definition consoleError :: "exn \<Rightarrow> ('p world) cmd" where
  "consoleError e w = (Normal, w\<lparr>console := console w @ [e]\<rparr>)"

definition newPromise :: "'w cmd \<Rightarrow> 'w cmd" where
  \<comment> \<open>the executor runs at once; an exception it throws rejects the promise and goes no further\<close>
  "newPromise executor w = (case executor w of (c, w') \<Rightarrow> (Normal, w'))"

definition send :: "('d, 'p) eventEmitter \<Rightarrow> string \<Rightarrow> 'd \<Rightarrow> ('p world) cmd" where
  "send em event data w =
     (if event = [] then (Normal, w)
      else case handlers em event of
             Undefined \<Rightarrow> (Normal, w)
           | Inherited \<Rightarrow> (Throw ''TypeError: h.forEach is not a function'', w)
           | Handlers h \<Rightarrow>
               forEach (\<lambda>handler. newPromise (tryCatch (handler data) consoleError)) h w)"

definition on :: "('d, 'p) eventEmitter \<Rightarrow> string \<Rightarrow> ('d, 'p) handler \<Rightarrow> exn + ('d, 'p) eventEmitter" where
  "on em event handler =
     (case handlers em event of
        Undefined \<Rightarrow> Inr (em\<lparr>handlers := (handlers em)(event := Handlers [handler])\<rparr>)
      | Handlers h \<Rightarrow> Inr (em\<lparr>handlers := (handlers em)(event := Handlers (h @ [handler]))\<rparr>)
      | Inherited \<Rightarrow> Inl ''TypeError: this.handlers[event].push is not a function'')"

definition updateDisplay :: "('p world) cmd" where
  "updateDisplay w =
     (if state w then (Normal, w\<lparr>innerLeft := ''calc(100% - (20px + 2px))'', innerBackground := ''#5f2''\<rparr>)
      else (Normal, w\<lparr>innerLeft := ''2px'', innerBackground := ''#111''\<rparr>))"

definition setState :: "(bool, 'p) eventEmitter \<Rightarrow> bool \<Rightarrow> ('p world) cmd" where
  \<comment> \<open>\<^verbatim>\<open>state = newState; events.send("change", state); updateDisplay();\<close>\<close>
  "setState events newState =
     seq (\<lambda>w. (Normal, w\<lparr>state := newState\<rparr>))
       (seq (\<lambda>w. send events ''change'' (state w) w) updateDisplay)"

section \<open>Re-scanning on mutations (\<^verbatim>\<open>throttledUpdate\<close>)\<close>

text \<open>
  The variable \<^verbatim>\<open>updateTimeout\<close>, the browser's timers (handle and due time, in
  milliseconds; handles are positive integers, handed out in order), the clock, and the
  number of calls of \<^verbatim>\<open>update\<close>, each of which runs one \<^verbatim>\<open>scan\<close>.
\<close>

record watcher =
  updateTimeout :: "nat option"
  nextHandle :: nat
  timers :: "(nat \<times> nat) list"
  now :: nat
  scans :: nat

definition truthy :: "nat option \<Rightarrow> bool" where
  \<comment> \<open>\<^verbatim>\<open>if (updateTimeout)\<close>: \<^verbatim>\<open>undefined\<close> and \<^verbatim>\<open>0\<close> are falsy\<close>
  "truthy t = (case t of None \<Rightarrow> False | Some h \<Rightarrow> h \<noteq> 0)"

definition setTimeout :: "nat \<Rightarrow> watcher \<Rightarrow> nat \<times> watcher" where
  "setTimeout delay s =
     (nextHandle s,
      s\<lparr>timers := timers s @ [(nextHandle s, now s + delay)], nextHandle := nextHandle s + 1\<rparr>)"

definition clearTimeout :: "nat option \<Rightarrow> watcher \<Rightarrow> watcher" where
  "clearTimeout t s = s\<lparr>timers := filter (\<lambda>(h, due). Some h \<noteq> t) (timers s)\<rparr>"

definition update :: "watcher \<Rightarrow> watcher" where
  \<comment> \<open>\<^verbatim>\<open>results = scan(); ...\<close>: only the number of scans is kept\<close>
  "update s = s\<lparr>scans := scans s + 1\<rparr>"

definition timerCallback :: "watcher \<Rightarrow> watcher" where
  \<comment> \<open>\<^verbatim>\<open>() => { clearTimeout(updateTimeout); update(); }\<close>\<close>
  "timerCallback s = update (clearTimeout (updateTimeout s) s)"

definition throttledUpdate :: "watcher \<Rightarrow> watcher" where
  "throttledUpdate s =
     (if truthy (updateTimeout s) then s
      else (case setTimeout 500 s of (h, s') \<Rightarrow> s'\<lparr>updateTimeout := Some h\<rparr>))"

text \<open>
  The event loop: a mutation signal runs the observer's callback, which calls
  \<^verbatim>\<open>throttledUpdate\<close>; when time passes, every timer that has come due is taken off the
  list and its callback runs.
\<close>

datatype signal = Mutation | Elapse nat

definition fireTimer :: "watcher \<Rightarrow> nat \<times> nat \<Rightarrow> watcher" where
  "fireTimer s = (\<lambda>(h, due).
     if (h, due) \<in> set (timers s)
     then timerCallback (s\<lparr>timers := filter (\<lambda>t. t \<noteq> (h, due)) (timers s)\<rparr>)
     else s)"

definition elapse :: "nat \<Rightarrow> watcher \<Rightarrow> watcher" where
  "elapse d s =
     (let s' = s\<lparr>now := now s + d\<rparr>
      in foldl fireTimer s' (filter (\<lambda>(h, due). due \<le> now s') (timers s')))"

fun step :: "watcher \<Rightarrow> signal \<Rightarrow> watcher" where
  "step s Mutation = throttledUpdate s"
| "step s (Elapse d) = elapse d s"

definition scriptStart :: watcher where
  \<comment> \<open>after the script's first \<^verbatim>\<open>update()\<close> (line 334) and the observer's registration\<close>
  "scriptStart = update \<lparr>updateTimeout = None, nextHandle = 1, timers = [], now = 0, scans = 0\<rparr>"

definition run :: "signal list \<Rightarrow> watcher" where
  "run signals = foldl step scriptStart signals"

section \<open>Example inputs\<close>

text \<open>Matched-rule lists of one element, in cascade order, used to run the definitions.\<close>

definition cardRule :: cssRule where
  "cardRule = \<lparr>selectorText = ''.Card'', styleMap = [(''color'', [''red''])]\<rparr>"

definition bpkButtonRule :: cssRule where
  "bpkButtonRule = \<lparr>selectorText = ''.Bpk_Button'', styleMap = [(''color'', [''blue''])]\<rparr>"

definition compoundRule :: cssRule where
  "compoundRule = \<lparr>selectorText = ''div.Card'', styleMap = [(''color'', [''green''])]\<rparr>"

text \<open>
  The style map of a rule lists longhand properties by name, with serialised values:
  \<^verbatim>\<open>margin: 0\<close> is the four \<^verbatim>\<open>margin-*\<close> entries with \<^verbatim>\<open>0px\<close>. The rules of the example
  \<^verbatim>\<open>.Custom { margin: 0 }\<close>, \<^verbatim>\<open>.Legacy { margin: 4px }\<close>, \<^verbatim>\<open>.Bpk_X { margin: 8px }\<close> at the
  positions 2, 3 and 5 of a matched-rule list:
\<close>

definition marginRules :: "cssRule list" where
  "marginRules =
     [\<lparr>selectorText = ''*'', styleMap = [(''box-sizing'', [''border-box''])]\<rparr>,
      \<lparr>selectorText = ''div'', styleMap = [(''display'', [''block''])]\<rparr>,
      \<lparr>selectorText = ''.Custom'',
         styleMap = [(''margin-bottom'', [''0px'']), (''margin-left'', [''0px'']),
                     (''margin-right'', [''0px'']), (''margin-top'', [''0px''])]\<rparr>,
      \<lparr>selectorText = ''.Legacy'',
         styleMap = [(''margin-bottom'', [''4px'']), (''margin-left'', [''4px'']),
                     (''margin-right'', [''4px'']), (''margin-top'', [''4px''])]\<rparr>,
      \<lparr>selectorText = ''div.Custom'', styleMap = [(''cursor'', [''pointer''])]\<rparr>,
      \<lparr>selectorText = ''.Bpk_X'',
         styleMap = [(''margin-bottom'', [''8px'']), (''margin-left'', [''8px'']),
                     (''margin-right'', [''8px'']), (''margin-top'', [''8px''])]\<rparr>]"

text \<open>
  Values of more than one item, and two author rules before one Backpack rule.
\<close>

definition durationCardRule :: cssRule where
  "durationCardRule = \<lparr>selectorText = ''.Card'', styleMap = [(''transition-duration'', [''1s'', ''2s''])]\<rparr>"

definition durationBpkRule :: cssRule where
  "durationBpkRule = \<lparr>selectorText = ''.Bpk_Button'', styleMap = [(''transition-duration'', [''1s'', ''3s''])]\<rparr>"

definition durationBpkSameRule :: cssRule where
  "durationBpkSameRule = \<lparr>selectorText = ''.Bpk_Button'', styleMap = [(''transition-duration'', [''1s'', ''2s''])]\<rparr>"

definition blueRuleB :: cssRule where
  "blueRuleB = \<lparr>selectorText = ''.B'', styleMap = [(''color'', [''blue''])]\<rparr>"

definition redRuleA :: cssRule where
  "redRuleA = \<lparr>selectorText = ''.A'', styleMap = [(''color'', [''red''])]\<rparr>"


text \<open>
  A small selector engine for the examples: the universal selector, a type selector, a
  class selector and a type with a class; \<^verbatim>\<open>:first\<close>, the selector of a \<^verbatim>\<open>@page\<close> rule,
  cannot be parsed by \<^verbatim>\<open>matches\<close>.
\<close>

definition exampleMatches :: "element \<Rightarrow> string \<Rightarrow> exn + bool" where
  "exampleMatches el selector =
     (if selector = '':first'' then Inl ''SyntaxError''
      else Inr (selector = ''*'' \<or> selector = tagName el \<or>
                selector \<in> set (map (\<lambda>cn. ''.'' @ cn) (classList el)) \<or>
                selector \<in> set (map (\<lambda>cn. tagName el @ ''.'' @ cn) (classList el))))"

definition pageRule :: cssRule where
  "pageRule = \<lparr>selectorText = '':first'', styleMap = [(''margin-top'', [''1in''])]\<rparr>"

definition divCard :: element where
  "divCard = \<lparr>tagName = ''div'', classList = [''Card'', ''Bpk_Button'']\<rparr>"

definition pCard :: element where
  "pCard = \<lparr>tagName = ''p'', classList = [''Card'', ''Bpk_Button'']\<rparr>"

definition spanBpk :: element where
  "spanBpk = \<lparr>tagName = ''span'', classList = [''Bpk_Button'']\<rparr>"

definition liOther :: element where
  "liOther = \<lparr>tagName = ''li'', classList = [''Other'']\<rparr>"

definition brokenSheetDoc :: document where
  "brokenSheetDoc =
     \<lparr>allElements = [divCard],
      styleSheets = [\<lparr>cssRules = Inr [cardRule, pageRule, bpkButtonRule]\<rparr>,
                     \<lparr>cssRules = Inl ''SecurityError''\<rparr>,
                     \<lparr>cssRules = Inr [compoundRule]\<rparr>],
      matches = exampleMatches\<rparr>"

text \<open>
  A rule without a selector, such as \<^verbatim>\<open>@media\<close>, has \<^verbatim>\<open>selectorText\<close> \<^verbatim>\<open>undefined\<close>, which
  \<^verbatim>\<open>matches\<close> reads as the type selector \<^verbatim>\<open>undefined\<close>: it matches nothing and does not
  throw.
\<close>

definition mediaRule :: cssRule where
  "mediaRule = \<lparr>selectorText = ''undefined'', styleMap = []\<rparr>"

definition mediaSheetDoc :: document where
  "mediaSheetDoc =
     \<lparr>allElements = [divCard],
      styleSheets = [\<lparr>cssRules = Inr [cardRule, mediaRule, bpkButtonRule]\<rparr>],
      matches = exampleMatches\<rparr>"

definition exampleDoc :: document where
  "exampleDoc =
     \<lparr>allElements = [divCard, pCard, spanBpk, liOther],
      styleSheets = [\<lparr>cssRules = Inr [cardRule, bpkButtonRule]\<rparr>],
      matches = exampleMatches\<rparr>"

text \<open>
  Three listeners of one event, the second of which throws after its effect.
\<close>

definition recordCall :: "string \<Rightarrow> (bool, string list) handler" where
  "recordCall name data w = (Normal, w\<lparr>page := page w @ [name]\<rparr>)"

definition failingHandler :: "(bool, string list) handler" where
  "failingHandler data w = (Throw ''Error: listener failed'', w\<lparr>page := page w @ [''failing'']\<rparr>)"

definition exampleEmitter :: "(bool, string list) eventEmitter" where
  "exampleEmitter =
     \<lparr>handlers = (handlers newEventEmitter)
        (''change'' := Handlers [recordCall ''first'', failingHandler, recordCall ''third''])\<rparr>"

definition exampleWorld :: "(string list) world" where
  "exampleWorld = \<lparr>console = [], state = False, innerLeft = ''2px'', innerBackground = ''#111'', page = []\<rparr>"

text \<open>
  The states the watcher can reach: no timer was ever armed; or \<^verbatim>\<open>updateTimeout\<close> holds
  the handle of the one timer, which is still pending or has fired.
\<close>

definition settled :: "watcher \<Rightarrow> bool" where
  "settled s = (updateTimeout s = None \<and> timers s = [] \<and> scans s = 1 \<and> 0 < nextHandle s \<or>
     (\<exists>h. updateTimeout s = Some h \<and> 0 < h \<and>
        ((\<exists>due. timers s = [(h, due)]) \<and> scans s = 1 \<or> timers s = [] \<and> scans s = 2)))"

section \<open>Properties of the resolver\<close>

subsection \<open>The loop over the after-rules\<close>

lemma find_key_None: "find (\<lambda>(bKey, _). bKey = k) m = None \<longleftrightarrow> k \<notin> fst ` set m"
  by (induction m) auto

lemma find_key_Some: "find (\<lambda>(bKey, _). bKey = k) m = Some p \<Longrightarrow> fst p = k \<and> p \<in> set m"
  by (induction m) (auto split: if_splits)

lemma declares_iff: "declares a k \<longleftrightarrow> k \<in> fst ` set (styleMap a)"
  by (simp add: declares_def find_key_None)

lemma not_declares: "\<not> declares a k \<longleftrightarrow> find (\<lambda>(bKey, _). bKey = k) (styleMap a) = None"
  unfolding declares_def by blast

lemma forAfterRules_skip:
  "\<forall>a\<in>set xs. \<not> declares a k \<Longrightarrow> forAfterRules r k v (xs @ ys) = forAfterRules r k v ys"
  by (induction xs) (simp_all add: not_declares)

lemma forAfterRules_key:
  "forAfterRules r k v xs = Some ov \<Longrightarrow> key ov = k \<and> before ov = getValue v \<and> rule ov = selectorText r"
  by (induction xs) (auto split: option.splits if_splits)

lemma forAfterRules_Some_origin:
  "forAfterRules r k v xs = Some ov \<Longrightarrow>
     \<exists>ys F zs w. xs = ys @ F # zs \<and> (\<forall>a\<in>set ys. \<not> declares a k) \<and>
       find (\<lambda>(bKey, _). bKey = k) (styleMap F) = Some (k, w) \<and>
       startsWith (selectorText F) ''.Bpk'' \<and> getValue w \<noteq> getValue v \<and>
       ov = \<lparr>key = k, before = getValue v, after = getValue w, rule = selectorText r\<rparr>"
proof (induction xs)
  case Nil
  then show ?case by simp
next
  case (Cons a xs)
  show ?case
  proof (cases "find (\<lambda>(bKey, _). bKey = k) (styleMap a)")
    case None
    with Cons.prems have "forAfterRules r k v xs = Some ov" by simp
    from Cons.IH[OF this] obtain ys F zs w where
      h: "xs = ys @ F # zs" "\<forall>a\<in>set ys. \<not> declares a k"
         "find (\<lambda>(bKey, _). bKey = k) (styleMap F) = Some (k, w)"
         "startsWith (selectorText F) ''.Bpk''" "getValue w \<noteq> getValue v"
         "ov = \<lparr>key = k, before = getValue v, after = getValue w, rule = selectorText r\<rparr>"
      by blast
    from None have "\<not> declares a k" by (simp add: declares_def)
    with h have "a # xs = (a # ys) @ F # zs \<and> (\<forall>a\<in>set (a # ys). \<not> declares a k)" by simp
    with h show ?thesis by blast
  next
    case (Some p)
    from find_key_Some[OF Some] have pk: "p = (k, snd p)" by (cases p) simp
    from Some Cons.prems have
      "startsWith (selectorText a) ''.Bpk''" "getValue (snd p) \<noteq> getValue v"
      "ov = \<lparr>key = k, before = getValue v, after = getValue (snd p), rule = selectorText r\<rparr>"
      by (auto split: if_splits)
    moreover have "a # xs = [] @ a # xs \<and> (\<forall>a\<in>set []. \<not> declares a k)" by simp
    moreover from Some pk have "find (\<lambda>(bKey, _). bKey = k) (styleMap a) = Some (k, snd p)" by simp
    ultimately show ?thesis by blast
  qed
qed

lemma set_map_filter_id: "y \<in> set (List.map_filter (\<lambda>p. p) xs) \<longleftrightarrow> Some y \<in> set xs"
  by (induction xs) (auto split: option.splits)

lemma overridden_prefix:
  "overridden (pre @ r # post) r (length pre) = overridden (r # post) r 0"
  by (simp add: overridden_def checkProperty_def)

lemma overridden_mem:
  "ov \<in> set (overridden rules r i) \<longleftrightarrow> (\<exists>p\<in>set (styleMap r). checkProperty rules r i p = Some ov)"
  by (auto simp: overridden_def set_map_filter_id intro: rev_image_eqI)

lemma reduceStep_prefix:
  "reduceStep (pre @ r # post) acc (r, length pre) = acc @ reduceStep (r # post) [] (r, 0)"
  by (simp add: reduceStep_def overridden_prefix Let_def)

lemma foldl_reduceStep:
  "foldl (reduceStep (pre @ suf)) acc (zip suf [length pre..<length pre + length suf])
     = acc @ computeOverriddenProperties suf"
proof (induction suf arbitrary: pre acc)
  case Nil
  then show ?case by (simp add: computeOverriddenProperties_def)
next
  case (Cons r suf)
  have up: "[length pre..<length pre + length (r # suf)]
              = length pre # [length (pre @ [r])..<length (pre @ [r]) + length suf]"
    by (simp add: upt_rec)
  have "foldl (reduceStep (pre @ r # suf)) acc (zip (r # suf) [length pre..<length pre + length (r # suf)])
      = foldl (reduceStep ((pre @ [r]) @ suf)) (reduceStep (pre @ r # suf) acc (r, length pre))
          (zip suf [length (pre @ [r])..<length (pre @ [r]) + length suf])"
    unfolding up by simp
  also have "\<dots> = reduceStep (pre @ r # suf) acc (r, length pre) @ computeOverriddenProperties suf"
    by (rule Cons.IH)
  also have "\<dots> = acc @ reduceStep (r # suf) [] (r, 0) @ computeOverriddenProperties suf"
    by (simp add: reduceStep_prefix)
  finally have L: "foldl (reduceStep (pre @ r # suf)) acc (zip (r # suf) [length pre..<length pre + length (r # suf)])
      = acc @ reduceStep (r # suf) [] (r, 0) @ computeOverriddenProperties suf" .
  have up0: "[0..<length (r # suf)] = 0 # [length [r]..<length [r] + length suf]"
    by (simp add: upt_rec)
  have "computeOverriddenProperties (r # suf)
      = foldl (reduceStep ([r] @ suf)) (reduceStep (r # suf) [] (r, 0)) (zip suf [length [r]..<length [r] + length suf])"
    unfolding computeOverriddenProperties_def up0 by simp
  also have "\<dots> = reduceStep (r # suf) [] (r, 0) @ computeOverriddenProperties suf"
    by (rule Cons.IH)
  finally show ?case using L by simp
qed

lemma computeOverriddenProperties_Nil: "computeOverriddenProperties [] = []"
  by (simp add: computeOverriddenProperties_def)

lemma computeOverriddenProperties_Cons:
  "computeOverriddenProperties (r # rs) =
     (if isBackpackClassRule r \<or> \<not> isNonBackpackClassRule r then [] else overridden (r # rs) r 0)
     @ computeOverriddenProperties rs"
proof -
  have "computeOverriddenProperties (r # rs) = reduceStep (r # rs) [] (r, 0) @ computeOverriddenProperties rs"
    using foldl_reduceStep[of "[r]" rs "reduceStep (r # rs) [] (r, 0)"]
    by (simp add: computeOverriddenProperties_def upt_rec)
  then show ?thesis by (simp add: reduceStep_def Let_def)
qed

lemma forAfterRules_shield:
  "\<forall>F\<in>set xs. startsWith (selectorText F) ''.Bpk'' \<longrightarrow> \<not> declares F k \<Longrightarrow>
   declares L k \<Longrightarrow> \<not> startsWith (selectorText L) ''.Bpk'' \<Longrightarrow>
   forAfterRules r k v (xs @ L # ys) = None"
proof (induction xs)
  case Nil
  then show ?case by (auto simp: declares_def)
next
  case (Cons a xs)
  then have IH: "forAfterRules r k v (xs @ L # ys) = None" by simp
  show ?case
  proof (cases "find (\<lambda>(bKey, _). bKey = k) (styleMap a)")
    case None
    with IH show ?thesis by simp
  next
    case (Some p)
    then have "declares a k" by (simp add: declares_def)
    with Cons.prems(1) have "\<not> startsWith (selectorText a) ''.Bpk''" by auto
    with Some show ?thesis by simp
  qed
qed

lemma checkProperty_key:
  "checkProperty rules r i p = Some ov \<Longrightarrow> key ov = fst p \<and> rule ov = selectorText r"
  by (cases p) (auto simp: checkProperty_def dest: forAfterRules_key)

lemma overridden_declared:
  "ov \<in> set (overridden rules r i) \<Longrightarrow> declares r (key ov) \<and> rule ov = selectorText r"
proof -
  assume "ov \<in> set (overridden rules r i)"
  then obtain p where p: "p \<in> set (styleMap r)" "checkProperty rules r i p = Some ov"
    by (auto simp: overridden_mem)
  from checkProperty_key[OF p(2)] p(1) show ?thesis
    by (auto simp: declares_iff intro: rev_image_eqI)
qed

lemma override_origin:
  "ov \<in> set (computeOverriddenProperties rules) \<Longrightarrow>
     \<exists>pre r post. rules = pre @ r # post \<and> isAuthorCandidate r \<and>
        ov \<in> set (overridden rules r (length pre))"
proof (induction rules)
  case Nil
  then show ?case by (simp add: computeOverriddenProperties_Nil)
next
  case (Cons a rules)
  from Cons.prems consider
    (here) "isAuthorCandidate a" "ov \<in> set (overridden (a # rules) a 0)"
    | (later) "ov \<in> set (computeOverriddenProperties rules)"
    by (auto simp: computeOverriddenProperties_Cons isAuthorCandidate_def split: if_splits)
  then show ?case
  proof cases
    case here
    then have "a # rules = [] @ a # rules \<and> isAuthorCandidate a \<and>
       ov \<in> set (overridden (a # rules) a (length ([]::cssRule list)))" by simp
    then show ?thesis by blast
  next
    case later
    from Cons.IH[OF this] obtain pre r post where
      h: "rules = pre @ r # post" "isAuthorCandidate r" "ov \<in> set (overridden rules r (length pre))"
      by blast
    have "overridden (a # rules) r (length (a # pre)) = overridden rules r (length pre)"
      using h(1) overridden_prefix[of "a # pre" r post] overridden_prefix[of pre r post] by simp
    with h have "a # rules = (a # pre) @ r # post \<and> isAuthorCandidate r \<and>
       ov \<in> set (overridden (a # rules) r (length (a # pre)))" by simp
    then show ?thesis by blast
  qed
qed

lemma overridden_subset:
  "isAuthorCandidate r \<Longrightarrow>
   set (overridden (pre @ r # post) r (length pre)) \<subseteq> set (computeOverriddenProperties (pre @ r # post))"
proof (induction pre)
  case Nil
  then show ?case by (simp add: computeOverriddenProperties_Cons isAuthorCandidate_def)
next
  case (Cons a pre)
  have "overridden ((a # pre) @ r # post) r (length (a # pre)) = overridden (pre @ r # post) r (length pre)"
    using overridden_prefix[of "a # pre" r post] overridden_prefix[of pre r post] by simp
  with Cons show ?case by (auto simp: computeOverriddenProperties_Cons)
qed

lemma filter_key_overridden:
  "distinct (map fst m) \<Longrightarrow> (P, v) \<in> set m \<Longrightarrow>
   filter (\<lambda>ov. key ov = P) (List.map_filter (\<lambda>p. p) (map (checkProperty rules r i) m))
     = (case checkProperty rules r i (P, v) of None \<Rightarrow> [] | Some ov \<Rightarrow> [ov])"
proof (induction m)
  case Nil
  then show ?case by simp
next
  case (Cons p m)
  have nokey: "filter (\<lambda>ov. key ov = P) (List.map_filter (\<lambda>p. p) (map (checkProperty rules r i) m')) = []"
    if "P \<notin> fst ` set m'" for m'
    using that
  proof (induction m')
    case Nil
    then show ?case by simp
  next
    case (Cons q m')
    then show ?case by (auto split: option.splits dest: checkProperty_key)
  qed
  show ?case
  proof (cases "p = (P, v)")
    case True
    with Cons.prems have "P \<notin> fst ` set m" by auto
    from nokey[OF this] True show ?thesis
      by (auto split: option.splits dest: checkProperty_key)
  next
    case False
    with Cons.prems have in_m: "(P, v) \<in> set m" and d: "distinct (map fst m)" by auto
    from Cons.prems in_m have "fst p \<noteq> P" by (auto intro: rev_image_eqI)
    with Cons.IH[OF d in_m] show ?thesis
      by (auto split: option.splits dest: checkProperty_key)
  qed
qed

subsection \<open>Where an override comes from\<close>

lemma computeOverriddenProperties_declared:
  "ov \<in> set (computeOverriddenProperties rules) \<Longrightarrow> \<exists>r\<in>set rules. declares r (key ov)"
proof -
  assume "ov \<in> set (computeOverriddenProperties rules)"
  from override_origin[OF this] obtain pre r post where
    h: "rules = pre @ r # post" "ov \<in> set (overridden rules r (length pre))" by blast
  from overridden_declared[OF h(2)] h(1) show ?thesis by auto
qed

lemma overridden_None_for:
  "\<forall>v. checkProperty rules r i (P, v) = None \<Longrightarrow> \<forall>ov\<in>set (overridden rules r i). key ov \<noteq> P"
proof
  fix ov assume n: "\<forall>v. checkProperty rules r i (P, v) = None" and m: "ov \<in> set (overridden rules r i)"
  from m obtain p where p: "p \<in> set (styleMap r)" "checkProperty rules r i p = Some ov"
    by (auto simp: overridden_mem)
  show "key ov \<noteq> P"
  proof
    assume "key ov = P"
    with checkProperty_key[OF p(2)] have "p = (P, snd p)" by (cases p) simp
    with n p(2) show False by (metis option.distinct(1))
  qed
qed

lemma no_override_after_last_declaration:
  assumes "\<not> isBackpackClassRule R" and "declares R P" and "\<forall>a\<in>set post. \<not> declares a P"
  shows "\<forall>ov\<in>set (computeOverriddenProperties (pre @ R # post)). key ov \<noteq> P"
proof (induction pre)
  case Nil
  have "checkProperty (R # post) R 0 (P, v) = None" for v
    using forAfterRules_skip[of "rev post" P R v "[]"] assms(3) by (simp add: checkProperty_def)
  then have here: "\<forall>ov\<in>set (overridden (R # post) R 0). key ov \<noteq> P"
    by (intro overridden_None_for) simp
  have "\<forall>ov\<in>set (computeOverriddenProperties post). key ov \<noteq> P"
    using assms(3) by (auto dest: computeOverriddenProperties_declared)
  with here show ?case by (auto simp: computeOverriddenProperties_Cons)
next
  case (Cons a pre)
  have sh: "\<forall>F\<in>set (rev post). startsWith (selectorText F) ''.Bpk'' \<longrightarrow> \<not> declares F P"
    using assms(3) by simp
  have "checkProperty (a # pre @ R # post) a 0 (P, v) = None" for v
    using forAfterRules_shield[OF sh assms(2), of a v "rev pre"] assms(1)
    by (simp add: checkProperty_def isBackpackClassRule_def)
  then have "\<forall>ov\<in>set (overridden (a # pre @ R # post) a 0). key ov \<noteq> P"
    by (intro overridden_None_for) simp
  with Cons show ?case by (auto simp: computeOverriddenProperties_Cons)
qed

lemma forAfterRules_append:
  "forAfterRules r k v (xs @ ys)
     = (if \<exists>a\<in>set xs. declares a k then forAfterRules r k v xs else forAfterRules r k v ys)"
proof (induction xs)
  case Nil
  then show ?case by simp
next
  case (Cons a xs)
  show ?case
  proof (cases "find (\<lambda>(bKey, _). bKey = k) (styleMap a)")
    case None
    then have "\<not> declares a k" by (simp add: declares_def)
    with None Cons show ?thesis by simp
  next
    case (Some p)
    then have "declares a k" by (simp add: declares_def)
    with Some show ?thesis by simp
  qed
qed

lemma forAfterRules_not_backpack:
  "declares x k \<Longrightarrow> \<not> isBackpackClassRule x \<Longrightarrow> forAfterRules r k v (x # ys) = None"
  by (auto simp: declares_def isBackpackClassRule_def)

lemma override_source:
  "ov \<in> set (computeOverriddenProperties rules) \<longleftrightarrow>
     (\<exists>pre R mid F post v w.
        rules = pre @ R # mid @ F # post \<and> isAuthorCandidate R \<and>
        (key ov, v) \<in> set (styleMap R) \<and> isBackpackClassRule F \<and>
        find (\<lambda>(bKey, _). bKey = key ov) (styleMap F) = Some (key ov, w) \<and>
        (\<forall>a\<in>set post. \<not> declares a (key ov)) \<and> getValue v \<noteq> getValue w \<and>
        ov = \<lparr>key = key ov, before = getValue v, after = getValue w, rule = selectorText R\<rparr>)"
  (is "?L \<longleftrightarrow> ?R")
proof
  assume ?L
  from override_origin[OF this] obtain pre R after where
    h: "rules = pre @ R # after" "isAuthorCandidate R" "ov \<in> set (overridden rules R (length pre))"
    by blast
  from h(3) obtain k v where p: "(k, v) \<in> set (styleMap R)"
      "forAfterRules R k v (rev after) = Some ov"
    using h(1) by (auto simp: overridden_mem checkProperty_def)
  from forAfterRules_Some_origin[OF p(2)] obtain ys F zs w where
    o: "rev after = ys @ F # zs" "\<forall>a\<in>set ys. \<not> declares a k"
       "find (\<lambda>(bKey, _). bKey = k) (styleMap F) = Some (k, w)"
       "startsWith (selectorText F) ''.Bpk''" "getValue w \<noteq> getValue v"
       "ov = \<lparr>key = k, before = getValue v, after = getValue w, rule = selectorText R\<rparr>"
    by blast
  from o(6) have k: "key ov = k" by simp
  from o(1) have "rev (rev after) = rev (ys @ F # zs)" by simp
  then have "after = rev zs @ F # rev ys" by simp
  with h(1) have 1: "rules = pre @ R # rev zs @ F # rev ys" by simp
  from o(2) have 2: "\<forall>a\<in>set (rev ys). \<not> declares a (key ov)" by (simp add: k)
  from o(4) have 3: "isBackpackClassRule F" by (simp add: isBackpackClassRule_def)
  from p(1) have 4: "(key ov, v) \<in> set (styleMap R)" by (simp add: k)
  from o(3) have 5: "find (\<lambda>(bKey, _). bKey = key ov) (styleMap F) = Some (key ov, w)"
    by (simp add: k)
  from o(5) have 6: "getValue v \<noteq> getValue w" by simp
  from o(6) have 7: "ov = \<lparr>key = key ov, before = getValue v, after = getValue w, rule = selectorText R\<rparr>"
    by simp
  from 1 h(2) 4 3 5 2 6 7 show ?R by blast
next
  assume ?R
  then obtain pre R mid F post v w where
    h: "rules = pre @ R # mid @ F # post" "isAuthorCandidate R"
       "(key ov, v) \<in> set (styleMap R)" "isBackpackClassRule F"
       "find (\<lambda>(bKey, _). bKey = key ov) (styleMap F) = Some (key ov, w)"
       "\<forall>a\<in>set post. \<not> declares a (key ov)" "getValue v \<noteq> getValue w"
       "ov = \<lparr>key = key ov, before = getValue v, after = getValue w, rule = selectorText R\<rparr>"
    by blast
  from h(6) have skip: "\<forall>a\<in>set (rev post). \<not> declares a (key ov)" by simp
  have "checkProperty rules R (length pre) (key ov, v) = forAfterRules R (key ov) v (F # rev mid)"
    using h(1) forAfterRules_skip[OF skip, of R v "F # rev mid"] by (simp add: checkProperty_def)
  also have "\<dots> = Some ov"
    using h(4,5,7,8) by (simp add: isBackpackClassRule_def)
  finally have "ov \<in> set (overridden rules R (length pre))"
    using h(3) by (auto simp: overridden_mem)
  with overridden_subset[OF h(2), of pre "mid @ F # post"] h(1) show ?L by auto
qed

lemma no_backpack_declaration:
  assumes "\<forall>F\<in>set rules. isBackpackClassRule F \<longrightarrow> \<not> declares F P"
  shows "\<forall>ov\<in>set (computeOverriddenProperties rules). key ov \<noteq> P"
proof
  fix ov assume "ov \<in> set (computeOverriddenProperties rules)"
  then obtain pre R mid F post w where
    h: "rules = pre @ R # mid @ F # post" "isBackpackClassRule F"
       "find (\<lambda>(bKey, _). bKey = key ov) (styleMap F) = Some (key ov, w)"
    unfolding override_source by blast
  from h(3) have "declares F (key ov)" by (simp add: declares_def)
  moreover from h(1) have "F \<in> set rules" by simp
  ultimately show "key ov \<noteq> P" using assms h(2) by auto
qed

lemma no_override_behind_shield:
  assumes "declares L P" and "\<not> isBackpackClassRule L"
    and "\<forall>F\<in>set post. isBackpackClassRule F \<longrightarrow> \<not> declares F P"
  shows "\<forall>ov\<in>set (computeOverriddenProperties (front @ L # post)). key ov \<noteq> P"
proof (induction front)
  case Nil
  have sh: "\<forall>F\<in>set (rev post). startsWith (selectorText F) ''.Bpk'' \<longrightarrow> \<not> declares F P"
    using assms(3) by (simp add: isBackpackClassRule_def)
  have "\<forall>F\<in>set (L # post). isBackpackClassRule F \<longrightarrow> \<not> declares F P"
    using assms(2,3) by simp
  then show ?case using no_backpack_declaration[of "L # post" P] by simp
next
  case (Cons a front)
  have sh: "\<forall>F\<in>set (rev post). startsWith (selectorText F) ''.Bpk'' \<longrightarrow> \<not> declares F P"
    using assms(3) by (simp add: isBackpackClassRule_def)
  have "checkProperty (a # front @ L # post) a 0 (P, v) = None" for v
    using forAfterRules_shield[OF sh assms(1), of a v "rev front"] assms(2)
    by (simp add: checkProperty_def isBackpackClassRule_def)
  then have "\<forall>ov\<in>set (overridden (a # front @ L # post) a 0). key ov \<noteq> P"
    by (intro overridden_None_for) simp
  with Cons show ?case by (auto simp: computeOverriddenProperties_Cons)
qed

lemma overridden_Cons_Suc: "overridden (a # rules) r (Suc i) = overridden rules r i"
  by (simp add: overridden_def checkProperty_def)

lemma reduceStep_Cons_Suc: "reduceStep (a # rules) [] (r, Suc i) = reduceStep rules [] (r, i)"
  by (simp add: reduceStep_def overridden_Cons_Suc)

lemma reduceStep_author:
  "isAuthorCandidate r \<Longrightarrow> reduceStep rules [] (r, i) = overridden rules r i"
  by (simp add: reduceStep_def isAuthorCandidate_def Let_def)

lemma output_in_rule_order:
  "computeOverriddenProperties (pre @ suf)
     = concat (map (\<lambda>i. reduceStep (pre @ suf) [] ((pre @ suf) ! i, i)) [0..<length pre])
       @ computeOverriddenProperties suf"
proof (induction pre)
  case Nil
  then show ?case by simp
next
  case (Cons a pre)
  have up: "[0..<length (a # pre)] = 0 # map Suc [0..<length pre]"
    by (simp add: upt_conv_Cons map_Suc_upt del: upt_Suc)
  have "computeOverriddenProperties ((a # pre) @ suf)
      = reduceStep ((a # pre) @ suf) [] (a, 0) @ computeOverriddenProperties (pre @ suf)"
    by (simp add: computeOverriddenProperties_Cons reduceStep_def Let_def)
  then show ?case
    unfolding up by (simp add: Cons.IH reduceStep_Cons_Suc comp_def del: upt_Suc)
qed

lemma getValue_joined:
  "getValue v = (case v of [] \<Rightarrow> [] | x # xs \<Rightarrow> x @ concat (map (\<lambda>y. CHR '','' # y) xs))"
proof -
  have "joinComma (x # xs) = x @ concat (map (\<lambda>y. CHR '','' # y) xs)" for x xs
    by (induction xs arbitrary: x) simp_all
  then show ?thesis by (cases v) (simp_all add: getValue_def)
qed

lemma map_filter_suppressed:
  assumes "\<And>p. p \<in> set m \<Longrightarrow> f p = (if B (fst p) then None else g p)"
    and "\<And>p ov. g p = Some ov \<Longrightarrow> key ov = fst p"
  shows "List.map_filter (\<lambda>p. p) (map f m)
           = filter (\<lambda>ov. \<not> B (key ov)) (List.map_filter (\<lambda>p. p) (map g m))"
  using assms(1)
proof (induction m)
  case Nil
  then show ?case by simp
next
  case (Cons p m)
  then have IH: "List.map_filter (\<lambda>p. p) (map f m)
           = filter (\<lambda>ov. \<not> B (key ov)) (List.map_filter (\<lambda>p. p) (map g m))" by simp
  from Cons.prems have fp: "f p = (if B (fst p) then None else g p)" by simp
  show ?case
  proof (cases "g p")
    case None
    with fp IH show ?thesis by simp
  next
    case (Some ov)
    with assms(2) have "key ov = fst p" by simp
    with Some fp IH show ?thesis by simp
  qed
qed

subsection \<open>Evaluating the resolver on an explicit rule list\<close>

lemmas resolver_defs = computeOverriddenProperties_def reduceStep_def overridden_def checkProperty_def
    isBackpackClassRule_def isNonBackpackClassRule_def isAuthorCandidate_def isIrrelevant_def declares_def
    startsWith_def classChars_def getValue_def upt_rec

section \<open>The claims about the resolver\<close>

text \<open>
  C1. The claim: if a rule outside the framework declares \<open>P\<close> after \<open>R\<close> at an
  \<^emph>\<open>earlier\<close> cascade position than every Framework after-rule declaring \<open>P\<close>, no
  override is reported. The loop reads the after-rules last first, so this fails: for
  \<^verbatim>\<open>.Custom { margin: 0 }\<close> at position 2, \<^verbatim>\<open>.Legacy { margin: 4px }\<close> at 3 and
  \<^verbatim>\<open>.Bpk_X { margin: 8px }\<close> at 5, every margin longhand of \<^verbatim>\<open>.Custom\<close> is reported as
  overridden by \<^verbatim>\<open>8px\<close>, and every one of \<^verbatim>\<open>.Legacy\<close> as well.
\<close>

theorem C1_counterexample:
  "isAuthorCandidate (marginRules ! 2) \<and> (''margin-top'', [''0px'']) \<in> set (styleMap (marginRules ! 2)) \<and>
   \<not> isBackpackClassRule (marginRules ! 3) \<and> declares (marginRules ! 3) ''margin-top'' \<and>
   \<not> declares (marginRules ! 4) ''margin-top'' \<and>
   isBackpackClassRule (marginRules ! 5) \<and> declares (marginRules ! 5) ''margin-top'' \<and>
   length marginRules = 6 \<and>
   checkProperty marginRules (marginRules ! 2) 2 (''margin-top'', [''0px''])
     = Some \<lparr>key = ''margin-top'', before = ''0px'', after = ''8px'', rule = ''.Custom''\<rparr> \<and>
   computeOverriddenProperties marginRules
     = [\<lparr>key = ''margin-bottom'', before = ''0px'', after = ''8px'', rule = ''.Custom''\<rparr>,
        \<lparr>key = ''margin-left'', before = ''0px'', after = ''8px'', rule = ''.Custom''\<rparr>,
        \<lparr>key = ''margin-right'', before = ''0px'', after = ''8px'', rule = ''.Custom''\<rparr>,
        \<lparr>key = ''margin-top'', before = ''0px'', after = ''8px'', rule = ''.Custom''\<rparr>,
        \<lparr>key = ''margin-bottom'', before = ''4px'', after = ''8px'', rule = ''.Legacy''\<rparr>,
        \<lparr>key = ''margin-left'', before = ''4px'', after = ''8px'', rule = ''.Legacy''\<rparr>,
        \<lparr>key = ''margin-right'', before = ''4px'', after = ''8px'', rule = ''.Legacy''\<rparr>,
        \<lparr>key = ''margin-top'', before = ''4px'', after = ''8px'', rule = ''.Legacy''\<rparr>]"
  by (simp add: marginRules_def resolver_defs)

text \<open>
  C1, as the code has it: when a rule \<open>L\<close> that is not a Backpack rule declares \<open>P\<close> after
  \<open>R\<close>, at a \<^emph>\<open>later\<close> cascade position than every Backpack after-rule declaring \<open>P\<close>,
  nothing is reported for the property \<open>P\<close> of \<open>R\<close>, whatever the rules between \<open>R\<close> and
  \<open>L\<close> declare, and the output of the resolver holds no override for \<open>P\<close> at all.
\<close>

theorem C1_last_declaring_rule_not_backpack:
  assumes "rules = pre @ R # mid @ L # post"
    and "declares L P" and "\<not> isBackpackClassRule L"
    and "\<forall>F\<in>set post. isBackpackClassRule F \<longrightarrow> \<not> declares F P"
  shows "checkProperty rules R (length pre) (P, v) = None \<and>
         (\<forall>ov\<in>set (overridden rules R (length pre)). key ov \<noteq> P) \<and>
         (\<forall>ov\<in>set (computeOverriddenProperties rules). key ov \<noteq> P)"
proof -
  have after_rules: "rev (drop (length pre + 1) rules) = rev post @ L # rev mid"
    using assms(1) by simp
  have shielded: "\<forall>F\<in>set (rev post). startsWith (selectorText F) ''.Bpk'' \<longrightarrow> \<not> declares F P"
    using assms(4) by (simp add: isBackpackClassRule_def)
  have none: "checkProperty rules R (length pre) (P, v') = None" for v'
    using forAfterRules_shield[OF shielded assms(2), of R v' "rev mid"] assms(3) after_rules
    by (simp add: checkProperty_def isBackpackClassRule_def)
  then have own: "\<forall>ov\<in>set (overridden rules R (length pre)). key ov \<noteq> P"
    by (intro overridden_None_for) simp
  have "\<forall>ov\<in>set (computeOverriddenProperties ((pre @ R # mid) @ L # post)). key ov \<noteq> P"
    by (rule no_override_behind_shield[OF assms(2,3,4)])
  then have "\<forall>ov\<in>set (computeOverriddenProperties rules). key ov \<noteq> P"
    using assms(1) by simp
  with none own show ?thesis by blast
qed

text \<open>
  C1 at \<^verbatim>\<open>.Card { color: red }\<close>, \<^verbatim>\<open>.Bpk_Button { color: blue }\<close>, \<^verbatim>\<open>div.Card { color: green }\<close>.
\<close>

theorem C1_witness:
  "checkProperty [cardRule, bpkButtonRule, compoundRule] cardRule 0 (''color'', [''red'']) = None \<and>
   (\<nexists>ov. ov \<in> set (computeOverriddenProperties [cardRule, bpkButtonRule, compoundRule]) \<and>
         key ov = ''color'')"
proof -
  have "\<forall>F\<in>set ([]::cssRule list). isBackpackClassRule F \<longrightarrow> \<not> declares F ''color''" by simp
  moreover have "declares compoundRule ''color''" "\<not> isBackpackClassRule compoundRule"
    by (simp_all add: compoundRule_def resolver_defs)
  moreover have "[cardRule, bpkButtonRule, compoundRule] = [] @ cardRule # [bpkButtonRule] @ compoundRule # []"
    by simp
  ultimately have "checkProperty [cardRule, bpkButtonRule, compoundRule] cardRule (length ([]::cssRule list)) (''color'', [''red'']) = None \<and>
      (\<forall>ov\<in>set (computeOverriddenProperties [cardRule, bpkButtonRule, compoundRule]). key ov \<noteq> ''color'')"
    using C1_last_declaring_rule_not_backpack[of "[cardRule, bpkButtonRule, compoundRule]" "[]" cardRule "[bpkButtonRule]" compoundRule "[]" "''color''" "[''red'']"]
    by blast
  then show ?thesis by auto
qed

text \<open>
  C2. The claim: the \<open>rule\<close> field of an emitted override is the selector of the
  overriding Framework rule. The source writes \<^verbatim>\<open>rule: rule.selectorText\<close>, where \<^verbatim>\<open>rule\<close> is
  the rule the reduction is at, the author's own: for \<^verbatim>\<open>.Card { color: red }\<close> followed by
  \<^verbatim>\<open>.Bpk_Button { color: blue }\<close> the record carries \<^verbatim>\<open>.Card\<close>.
\<close>

theorem C2_counterexample:
  "computeOverriddenProperties [cardRule, bpkButtonRule]
     = [\<lparr>key = ''color'', before = ''red'', after = ''blue'', rule = ''.Card''\<rparr>] \<and>
   selectorText bpkButtonRule = ''.Bpk_Button'' \<and>
   rule (hd (computeOverriddenProperties [cardRule, bpkButtonRule])) \<noteq> selectorText bpkButtonRule"
  by (simp add: cardRule_def bpkButtonRule_def resolver_defs)

text \<open>
  C2, as the code has it. A record is in the output exactly when the list holds an
  AuthorCandidate rule \<open>R\<close> with an entry \<open>(key, v)\<close> and, after it, a Backpack rule \<open>F\<close>
  with the value \<open>w\<close> for that key, no rule after \<open>F\<close> declaring the key, the string forms
  of \<open>v\<close> and \<open>w\<close> differing; the record is then the key, the string form of \<open>v\<close> as
  \<open>before\<close>, the string form of \<open>w\<close> as \<open>after\<close>, and the selector of \<open>R\<close> as \<open>rule\<close>. So
  the \<open>rule\<close> field names the author's rule whose declaration was overridden, the
  Backpack rule gives the \<open>after\<close> value and nothing else, and no \<open>rule\<close> field has the
  \<^verbatim>\<open>.Bpk\<close> prefix.
\<close>

theorem C2_rule_field_is_author_selector:
  "(ov \<in> set (computeOverriddenProperties rules) \<longleftrightarrow>
     (\<exists>pre R mid F post v w.
        rules = pre @ R # mid @ F # post \<and> isAuthorCandidate R \<and>
        (key ov, v) \<in> set (styleMap R) \<and> isBackpackClassRule F \<and>
        find (\<lambda>(bKey, _). bKey = key ov) (styleMap F) = Some (key ov, w) \<and>
        (\<forall>a\<in>set post. \<not> declares a (key ov)) \<and> getValue v \<noteq> getValue w \<and>
        ov = \<lparr>key = key ov, before = getValue v, after = getValue w, rule = selectorText R\<rparr>)) \<and>
   (ov \<in> set (computeOverriddenProperties rules) \<longrightarrow> \<not> startsWith (rule ov) ''.Bpk'')"
proof -
  have "\<not> startsWith (rule ov) ''.Bpk''" if "ov \<in> set (computeOverriddenProperties rules)"
  proof -
    from that obtain R where "isAuthorCandidate R" "rule ov = selectorText R"
      unfolding override_source by (metis override.select_convs(4))
    then show ?thesis by (simp add: isAuthorCandidate_def isBackpackClassRule_def)
  qed
  with override_source[of ov rules] show ?thesis by blast
qed

text \<open>
  C2 at \<^verbatim>\<open>.B { color: blue }\<close>, \<^verbatim>\<open>.A { color: red }\<close>, \<^verbatim>\<open>.Bpk_Button { color: blue }\<close>: the
  record of the output names \<^verbatim>\<open>.A\<close>, and a record naming \<^verbatim>\<open>.Bpk_Button\<close> is not in it.
\<close>

theorem C2_witness:
  "\<lparr>key = ''color'', before = ''red'', after = ''blue'', rule = ''.A''\<rparr>
      \<in> set (computeOverriddenProperties [blueRuleB, redRuleA, bpkButtonRule]) \<and>
   \<lparr>key = ''color'', before = ''red'', after = ''blue'', rule = ''.Bpk_Button''\<rparr>
      \<notin> set (computeOverriddenProperties [blueRuleB, redRuleA, bpkButtonRule]) \<and>
   computeOverriddenProperties [blueRuleB, redRuleA, bpkButtonRule]
      = [\<lparr>key = ''color'', before = ''red'', after = ''blue'', rule = ''.A''\<rparr>]"
proof -
  let ?rules = "[blueRuleB, redRuleA, bpkButtonRule]"
  let ?ov = "\<lparr>key = ''color'', before = ''red'', after = ''blue'', rule = ''.A''\<rparr>"
  have "?rules = [blueRuleB] @ redRuleA # [] @ bpkButtonRule # [] \<and> isAuthorCandidate redRuleA \<and>
        (key ?ov, [''red'']) \<in> set (styleMap redRuleA) \<and> isBackpackClassRule bpkButtonRule \<and>
        find (\<lambda>(bKey, _). bKey = key ?ov) (styleMap bpkButtonRule) = Some (key ?ov, [''blue'']) \<and>
        (\<forall>a\<in>set []. \<not> declares a (key ?ov)) \<and> getValue [''red''] \<noteq> getValue [''blue''] \<and>
        ?ov = \<lparr>key = key ?ov, before = getValue [''red''], after = getValue [''blue''],
                 rule = selectorText redRuleA\<rparr>"
    by (simp add: redRuleA_def bpkButtonRule_def resolver_defs)
  then have 1: "?ov \<in> set (computeOverriddenProperties ?rules)"
    using C2_rule_field_is_author_selector[of ?ov ?rules, THEN conjunct1] by blast
  have 2: "\<lparr>key = ''color'', before = ''red'', after = ''blue'', rule = ''.Bpk_Button''\<rparr>
      \<notin> set (computeOverriddenProperties ?rules)"
    using C2_rule_field_is_author_selector[of "\<lparr>key = ''color'', before = ''red'', after = ''blue'', rule = ''.Bpk_Button''\<rparr>" ?rules, THEN conjunct2]
    by (auto simp: startsWith_def)
  have 3: "computeOverriddenProperties ?rules = [?ov]"
    by (simp add: blueRuleB_def redRuleA_def bpkButtonRule_def resolver_defs)
  from 1 2 3 show ?thesis by blast
qed

text \<open>
  C3. Let \<open>R\<close> be an AuthorCandidate rule with the entry \<open>(P, v)\<close>, and let the first of
  its after-rules, read last-applied first, that declares \<open>P\<close> be a Backpack rule \<open>F\<close> with
  the value \<open>w\<close>. Then the overrides that \<open>R\<close> contributes for \<open>P\<close> are exactly one record
  with \<open>P\<close> and the string forms of \<open>v\<close> and \<open>w\<close> when these differ, and none when they are
  equal. The output of the resolver is the contributions of the rules before \<open>R\<close>, then
  that of \<open>R\<close>, then the output for the rules after \<open>R\<close>. The string form of a value is
  its items joined by commas. The keys of a style map are distinct.
\<close>

theorem C3_nearest_declaring_rule_is_backpack:
  assumes "rules = pre @ R # post" and "isAuthorCandidate R"
    and "distinct (map fst (styleMap R))" and "(P, v) \<in> set (styleMap R)"
    and "rev post = ys @ F # zs" and "\<forall>a\<in>set ys. \<not> declares a P"
    and "find (\<lambda>(bKey, _). bKey = P) (styleMap F) = Some (P, w)"
    and "isBackpackClassRule F"
  shows "filter (\<lambda>ov. key ov = P) (overridden rules R (length pre))
           = (if getValue v \<noteq> getValue w
              then [\<lparr>key = P, before = getValue v, after = getValue w, rule = selectorText R\<rparr>]
              else []) \<and>
         computeOverriddenProperties rules
           = concat (map (\<lambda>i. reduceStep rules [] (rules ! i, i)) [0..<length pre])
             @ overridden rules R (length pre) @ computeOverriddenProperties post \<and>
         getValue v = (case v of [] \<Rightarrow> [] | x # xs \<Rightarrow> x @ concat (map (\<lambda>y. CHR '','' # y) xs)) \<and>
         getValue w = (case w of [] \<Rightarrow> [] | x # xs \<Rightarrow> x @ concat (map (\<lambda>y. CHR '','' # y) xs))"
proof -
  have "checkProperty rules R (length pre) (P, v) = forAfterRules R P v (F # zs)"
    using assms(1,5) forAfterRules_skip[OF assms(6), of R v "F # zs"]
    by (simp add: checkProperty_def)
  also have "\<dots> = (if getValue v \<noteq> getValue w
       then Some \<lparr>key = P, before = getValue v, after = getValue w, rule = selectorText R\<rparr>
       else None)"
    using assms(7,8) by (auto simp: isBackpackClassRule_def)
  finally have cp: "checkProperty rules R (length pre) (P, v) = (if getValue v \<noteq> getValue w
       then Some \<lparr>key = P, before = getValue v, after = getValue w, rule = selectorText R\<rparr>
       else None)" .
  have "filter (\<lambda>ov. key ov = P) (overridden rules R (length pre))
      = (case checkProperty rules R (length pre) (P, v) of None \<Rightarrow> [] | Some ov \<Rightarrow> [ov])"
    unfolding overridden_def by (rule filter_key_overridden[OF assms(3,4)])
  with cp have 1: "filter (\<lambda>ov. key ov = P) (overridden rules R (length pre))
           = (if getValue v \<noteq> getValue w
              then [\<lparr>key = P, before = getValue v, after = getValue w, rule = selectorText R\<rparr>]
              else [])" by simp
  have "computeOverriddenProperties (R # post)
      = overridden (pre @ R # post) R (length pre) @ computeOverriddenProperties post"
    using assms(2) by (simp add: computeOverriddenProperties_Cons isAuthorCandidate_def overridden_prefix)
  with output_in_rule_order[of pre "R # post"]
  have 2: "computeOverriddenProperties rules
           = concat (map (\<lambda>i. reduceStep rules [] (rules ! i, i)) [0..<length pre])
             @ overridden rules R (length pre) @ computeOverriddenProperties post"
    unfolding assms(1) by simp
  from 1 2 getValue_joined[of v] getValue_joined[of w] show ?thesis by blast
qed

text \<open>
  C3 at \<^verbatim>\<open>.Card { transition-duration: 1s, 2s }\<close> followed by
  \<^verbatim>\<open>.Bpk_Button { transition-duration: 1s, 3s }\<close>, and by the same Backpack rule with
  \<^verbatim>\<open>1s, 2s\<close>.
\<close>

theorem C3_witness:
  "filter (\<lambda>ov. key ov = ''transition-duration'') (overridden [durationCardRule, durationBpkRule] durationCardRule 0)
      = [\<lparr>key = ''transition-duration'', before = ''1s,2s'', after = ''1s,3s'', rule = ''.Card''\<rparr>] \<and>
   computeOverriddenProperties [durationCardRule, durationBpkRule]
      = [\<lparr>key = ''transition-duration'', before = ''1s,2s'', after = ''1s,3s'', rule = ''.Card''\<rparr>] \<and>
   filter (\<lambda>ov. key ov = ''transition-duration'') (overridden [durationCardRule, durationBpkSameRule] durationCardRule 0) = [] \<and>
   computeOverriddenProperties [durationCardRule, durationBpkSameRule] = []"
proof -
  have a: "isAuthorCandidate durationCardRule" "distinct (map fst (styleMap durationCardRule))"
    "(''transition-duration'', [''1s'', ''2s'']) \<in> set (styleMap durationCardRule)"
    by (simp_all add: durationCardRule_def resolver_defs)
  have none: "\<forall>a\<in>set ([]::cssRule list). \<not> declares a ''transition-duration''" by simp
  have b: "find (\<lambda>(bKey, _). bKey = ''transition-duration'') (styleMap durationBpkRule)
             = Some (''transition-duration'', [''1s'', ''3s''])"
    "isBackpackClassRule durationBpkRule"
    by (simp_all add: durationBpkRule_def resolver_defs)
  have c: "find (\<lambda>(bKey, _). bKey = ''transition-duration'') (styleMap durationBpkSameRule)
             = Some (''transition-duration'', [''1s'', ''2s''])"
    "isBackpackClassRule durationBpkSameRule"
    by (simp_all add: durationBpkSameRule_def resolver_defs)
  have 1: "[durationCardRule, durationBpkRule] = [] @ durationCardRule # [durationBpkRule]"
    and 2: "rev [durationBpkRule] = [] @ durationBpkRule # []"
    and 3: "[durationCardRule, durationBpkSameRule] = [] @ durationCardRule # [durationBpkSameRule]"
    and 4: "rev [durationBpkSameRule] = [] @ durationBpkSameRule # []" by simp_all
  have bpk: "computeOverriddenProperties [durationBpkRule] = []"
    "computeOverriddenProperties [durationBpkSameRule] = []"
    by (simp_all add: durationBpkRule_def durationBpkSameRule_def resolver_defs)
  have sel: "selectorText durationCardRule = ''.Card''" by (simp add: durationCardRule_def)
  have one: "overridden [durationCardRule, durationBpkRule] durationCardRule 0
      = filter (\<lambda>ov. key ov = ''transition-duration'') (overridden [durationCardRule, durationBpkRule] durationCardRule 0)"
    "overridden [durationCardRule, durationBpkSameRule] durationCardRule 0
      = filter (\<lambda>ov. key ov = ''transition-duration'') (overridden [durationCardRule, durationBpkSameRule] durationCardRule 0)"
    by (simp_all add: durationCardRule_def durationBpkRule_def durationBpkSameRule_def resolver_defs)
  from C3_nearest_declaring_rule_is_backpack[OF 1 a 2 none b]
  have x: "filter (\<lambda>ov. key ov = ''transition-duration'') (overridden [durationCardRule, durationBpkRule] durationCardRule 0)
      = [\<lparr>key = ''transition-duration'', before = ''1s,2s'', after = ''1s,3s'', rule = ''.Card''\<rparr>]"
    "computeOverriddenProperties [durationCardRule, durationBpkRule]
      = overridden [durationCardRule, durationBpkRule] durationCardRule 0"
    by (simp_all add: sel bpk)
  from C3_nearest_declaring_rule_is_backpack[OF 3 a 4 none c]
  have y: "filter (\<lambda>ov. key ov = ''transition-duration'') (overridden [durationCardRule, durationBpkSameRule] durationCardRule 0) = []"
    "computeOverriddenProperties [durationCardRule, durationBpkSameRule]
      = overridden [durationCardRule, durationBpkSameRule] durationCardRule 0"
    by (simp_all add: sel bpk)
  from x y one show ?thesis by simp
qed

text \<open>
  C4. The claim: adding or removing an Irrelevant rule never changes the output. An
  Irrelevant rule is a rule outside the \<^verbatim>\<open>.Bpk\<close> prefix, and the loop accepts any such
  after-rule that declares the property (line 198): \<^verbatim>\<open>div.Card { color: green }\<close> after
  \<^verbatim>\<open>.Card { color: red }\<close>, \<^verbatim>\<open>.Bpk_Button { color: blue }\<close> removes the override.
\<close>

theorem C4_counterexample:
  "isIrrelevant compoundRule \<and>
   computeOverriddenProperties [cardRule, bpkButtonRule, compoundRule] = [] \<and>
   computeOverriddenProperties [cardRule, bpkButtonRule]
     = [\<lparr>key = ''color'', before = ''red'', after = ''blue'', rule = ''.Card''\<rparr>]"
  by (simp add: cardRule_def bpkButtonRule_def compoundRule_def resolver_defs)

text \<open>
  C4, as the code has it: an Irrelevant rule \<open>x\<close> adds no override of its own, and it
  takes away exactly the overrides of the properties that \<open>x\<close> declares and no rule after
  \<open>x\<close> declares, for which \<open>x\<close> is the last-applied rule; every other override stays, in
  its place. The output with \<open>x\<close> is the output without it, less those records.
\<close>

theorem C4_irrelevant_rule_only_suppresses:
  assumes "isIrrelevant x"
  shows "computeOverriddenProperties (pre @ x # post)
           = filter (\<lambda>ov. \<not> (declares x (key ov) \<and> (\<forall>b\<in>set post. \<not> declares b (key ov))))
               (computeOverriddenProperties (pre @ post))"
proof (induction pre)
  case Nil
  have "\<not> (declares x (key ov) \<and> (\<forall>b\<in>set post. \<not> declares b (key ov)))"
    if "ov \<in> set (computeOverriddenProperties post)" for ov
    using computeOverriddenProperties_declared[OF that] by blast
  then have "filter (\<lambda>ov. \<not> (declares x (key ov) \<and> (\<forall>b\<in>set post. \<not> declares b (key ov))))
               (computeOverriddenProperties post) = computeOverriddenProperties post"
    by (simp add: filter_id_conv)
  with assms show ?case
    by (simp add: computeOverriddenProperties_Cons isIrrelevant_def)
next
  case (Cons a pre)
  have nb: "\<not> isBackpackClassRule x" using assms by (simp add: isIrrelevant_def)
  have cp: "checkProperty (a # pre @ x # post) a 0 p
      = (if declares x (fst p) \<and> (\<forall>b\<in>set post. \<not> declares b (fst p)) then None
         else checkProperty (a # pre @ post) a 0 p)" for p
  proof (cases p)
    case (Pair k v)
    show ?thesis
    proof (cases "\<exists>b\<in>set (rev post). declares b k")
      case True
      then show ?thesis unfolding Pair
        by (auto simp: checkProperty_def forAfterRules_append)
    next
      case False
      show ?thesis
      proof (cases "declares x k")
        case True
        with False forAfterRules_not_backpack[OF True nb] show ?thesis unfolding Pair
          by (simp add: checkProperty_def forAfterRules_append)
      next
        case nd: False
        then have "forAfterRules a k v (x # rev pre) = forAfterRules a k v (rev pre)"
          by (simp add: not_declares)
        with False nd show ?thesis unfolding Pair
          by (simp add: checkProperty_def forAfterRules_append)
      qed
    qed
  qed
  have "overridden (a # pre @ x # post) a 0
      = filter (\<lambda>ov. \<not> (declares x (key ov) \<and> (\<forall>b\<in>set post. \<not> declares b (key ov))))
          (overridden (a # pre @ post) a 0)"
    unfolding overridden_def
    by (rule map_filter_suppressed[where B = "\<lambda>k. declares x k \<and> (\<forall>b\<in>set post. \<not> declares b k)"])
       (simp_all add: cp checkProperty_key)
  with Cons show ?case
    by (simp add: computeOverriddenProperties_Cons)
qed

text \<open>
  C4 at \<^verbatim>\<open>div.Card { color: green }\<close> put after, between and before
  \<^verbatim>\<open>.Card { color: red }\<close> and \<^verbatim>\<open>.Bpk_Button { color: blue }\<close>: only as the last rule does it
  take the override away.
\<close>

theorem C4_witness:
  "computeOverriddenProperties ([cardRule, bpkButtonRule] @ compoundRule # []) = [] \<and>
   computeOverriddenProperties ([cardRule] @ compoundRule # [bpkButtonRule])
     = [\<lparr>key = ''color'', before = ''red'', after = ''blue'', rule = ''.Card''\<rparr>] \<and>
   computeOverriddenProperties ([] @ compoundRule # [cardRule, bpkButtonRule])
     = [\<lparr>key = ''color'', before = ''red'', after = ''blue'', rule = ''.Card''\<rparr>]"
proof -
  have irr: "isIrrelevant compoundRule" by (simp add: compoundRule_def resolver_defs)
  have out: "computeOverriddenProperties [cardRule, bpkButtonRule]
      = [\<lparr>key = ''color'', before = ''red'', after = ''blue'', rule = ''.Card''\<rparr>]"
    by (simp add: cardRule_def bpkButtonRule_def resolver_defs)
  have d: "declares compoundRule ''color''" "declares bpkButtonRule ''color''"
    by (simp_all add: compoundRule_def bpkButtonRule_def declares_def)
  from C4_irrelevant_rule_only_suppresses[OF irr, of "[cardRule, bpkButtonRule]" "[]"]
       C4_irrelevant_rule_only_suppresses[OF irr, of "[cardRule]" "[bpkButtonRule]"]
       C4_irrelevant_rule_only_suppresses[OF irr, of "[]" "[cardRule, bpkButtonRule]"]
  show ?thesis by (simp add: out d)
qed

text \<open>
  C5. For an AuthorCandidate rule \<open>R\<close>: what \<open>R\<close> contributes does not depend on the rules
  before it; the overriding value of every override it contributes is declared by a
  Backpack rule after it; and when \<open>R\<close> declares \<open>P\<close> and no rule after \<open>R\<close> does, the
  output holds no override for \<open>P\<close> at all, whatever the rules before \<open>R\<close> declare.
\<close>

theorem C5_rules_before_are_never_reported:
  assumes "isAuthorCandidate R"
  shows "overridden (pre @ R # post) R (length pre) = overridden (R # post) R 0 \<and>
         (\<forall>ov\<in>set (overridden (pre @ R # post) R (length pre)).
            \<exists>F\<in>set post. isBackpackClassRule F \<and>
              (\<exists>w. (key ov, w) \<in> set (styleMap F) \<and> after ov = getValue w)) \<and>
         (declares R P \<and> (\<forall>a\<in>set post. \<not> declares a P) \<longrightarrow>
            (\<forall>ov\<in>set (computeOverriddenProperties (pre @ R # post)). key ov \<noteq> P))"
proof -
  have 1: "overridden (pre @ R # post) R (length pre) = overridden (R # post) R 0"
    by (rule overridden_prefix)
  have 2: "\<exists>F\<in>set post. isBackpackClassRule F \<and>
              (\<exists>w. (key ov, w) \<in> set (styleMap F) \<and> after ov = getValue w)"
    if "ov \<in> set (overridden (pre @ R # post) R (length pre))" for ov
  proof -
    from that obtain k v where p: "(k, v) \<in> set (styleMap R)"
        "forAfterRules R k v (rev post) = Some ov"
      by (auto simp: overridden_mem checkProperty_def)
    from forAfterRules_Some_origin[OF p(2)] obtain ys F zs w where
      o: "rev post = ys @ F # zs" "find (\<lambda>(bKey, _). bKey = k) (styleMap F) = Some (k, w)"
         "startsWith (selectorText F) ''.Bpk''"
         "ov = \<lparr>key = k, before = getValue v, after = getValue w, rule = selectorText R\<rparr>"
      by blast
    from o(1) have "F \<in> set (rev post)" by simp
    then have "F \<in> set post" by simp
    moreover from find_key_Some[OF o(2)] have "(k, w) \<in> set (styleMap F)" by simp
    ultimately show ?thesis using o(3,4) by (auto simp: isBackpackClassRule_def)
  qed
  have 3: "\<forall>ov\<in>set (computeOverriddenProperties (pre @ R # post)). key ov \<noteq> P"
    if "declares R P" "\<forall>a\<in>set post. \<not> declares a P"
    using no_override_after_last_declaration[OF _ that] assms
    by (simp add: isAuthorCandidate_def)
  from 1 2 3 show ?thesis by blast
qed

text \<open>
  C5 at \<^verbatim>\<open>.Bpk_Button { color: blue }\<close> followed by \<^verbatim>\<open>.Card { color: red }\<close>.
\<close>

theorem C5_witness:
  "overridden ([bpkButtonRule] @ cardRule # []) cardRule (length [bpkButtonRule])
     = overridden (cardRule # []) cardRule 0 \<and>
   (\<nexists>ov. ov \<in> set (computeOverriddenProperties ([bpkButtonRule] @ cardRule # [])) \<and> key ov = ''color'')"
proof -
  have a: "isAuthorCandidate cardRule" "declares cardRule ''color''"
    by (simp_all add: cardRule_def resolver_defs)
  have n: "\<forall>a\<in>set ([]::cssRule list). \<not> declares a ''color''" by simp
  from C5_rules_before_are_never_reported[OF a(1), of "[bpkButtonRule]" "[]" "''color''"] a(2) n
  show ?thesis by blast
qed

section \<open>The claims about matching and scanning\<close>

lemmas scan_defs = scan_def querySelectorAll_def scanSelector_def scanElement_def
  hasOwnNonBackpackClass_def findCssRules_def tryCatch_def sheetRules_def pushIfMatches_def
  exampleMatches_def

lemma forEach_pushIfMatches:
  "snd (forEach (pushIfMatches m) rules ret)
     = ret @ filter (\<lambda>r. m (selectorText r) = Inr True)
               (takeWhile (\<lambda>r. \<not> isl (m (selectorText r))) rules)"
proof (induction rules arbitrary: ret)
  case Nil
  then show ?case by simp
next
  case (Cons r rules)
  show ?case
  proof (cases "m (selectorText r)")
    case (Inl e)
    then show ?thesis by (simp add: pushIfMatches_def)
  next
    case (Inr b)
    with Cons.IH[of "if b then ret @ [r] else ret"] show ?thesis
      by (simp add: pushIfMatches_def)
  qed
qed

lemma forEach_sheets:
  "forEach (\<lambda>sheet. tryCatch (sheetRules m sheet) (\<lambda>e ret. (Normal, ret))) sheets ret
     = (Normal, ret @ concat (map (\<lambda>sheet. case cssRules sheet of
           Inl e \<Rightarrow> []
         | Inr rules \<Rightarrow> filter (\<lambda>r. m (selectorText r) = Inr True)
               (takeWhile (\<lambda>r. \<not> isl (m (selectorText r))) rules)) sheets))"
proof (induction sheets arbitrary: ret)
  case Nil
  then show ?case by simp
next
  case (Cons sheet sheets)
  have one: "tryCatch (sheetRules m sheet) (\<lambda>e ret. (Normal, ret)) ret
      = (Normal, ret @ (case cssRules sheet of
           Inl e \<Rightarrow> []
         | Inr rules \<Rightarrow> filter (\<lambda>r. m (selectorText r) = Inr True)
               (takeWhile (\<lambda>r. \<not> isl (m (selectorText r))) rules)))"
  proof (cases "cssRules sheet")
    case (Inl e)
    then show ?thesis by (simp add: tryCatch_def sheetRules_def)
  next
    case (Inr rules)
    obtain c ret' where f: "forEach (pushIfMatches m) rules ret = (c, ret')"
      by (cases "forEach (pushIfMatches m) rules ret")
    with forEach_pushIfMatches[of m rules ret] have "ret' = ret @ filter (\<lambda>r. m (selectorText r) = Inr True)
               (takeWhile (\<lambda>r. \<not> isl (m (selectorText r))) rules)" by simp
    with f Inr show ?thesis by (cases c) (simp_all add: tryCatch_def sheetRules_def)
  qed
  show ?case by (simp add: one Cons.IH)
qed

lemma findCssRules_by_sheet:
  "findCssRules doc el
     = concat (map (\<lambda>sheet. case cssRules sheet of
           Inl e \<Rightarrow> []
         | Inr rules \<Rightarrow> filter (\<lambda>r. matches doc el (selectorText r) = Inr True)
               (takeWhile (\<lambda>r. \<not> isl (matches doc el (selectorText r))) rules)) (styleSheets doc))"
  by (simp add: findCssRules_def forEach_sheets)

text \<open>
  C6. The claim: a selector that cannot be evaluated costs only its own rule, and the
  remaining rules of the same sheet still take part. The \<^verbatim>\<open>try\<close> block, written for sheets
  that cannot be read, encloses the whole iteration over a sheet, so the exception ends
  it: in a sheet \<^verbatim>\<open>.Card\<close>, \<^verbatim>\<open>:first\<close>, \<^verbatim>\<open>.Bpk_Button\<close> the third rule matches the element
  and is not returned, and the override of \<^verbatim>\<open>.Card\<close> is not found. With a rule that
  matches nothing in the place of \<^verbatim>\<open>:first\<close> the third rule is returned and the override is
  found.
\<close>

theorem C6_rest_of_sheet_is_lost:
  "cssRules (styleSheets brokenSheetDoc ! 0) = Inr [cardRule, pageRule, bpkButtonRule] \<and>
   matches brokenSheetDoc divCard (selectorText pageRule) = Inl ''SyntaxError'' \<and>
   matches brokenSheetDoc divCard (selectorText bpkButtonRule) = Inr True \<and>
   findCssRules brokenSheetDoc divCard = [cardRule, compoundRule] \<and>
   bpkButtonRule \<notin> set (findCssRules brokenSheetDoc divCard) \<and>
   scan brokenSheetDoc = [] \<and>
   findCssRules mediaSheetDoc divCard = [cardRule, bpkButtonRule] \<and>
   scan mediaSheetDoc = [\<lparr>element = divCard, overriddenProperties =
       [\<lparr>key = ''color'', before = ''red'', after = ''blue'', rule = ''.Card''\<rparr>]\<rparr>]"
proof -
  have m: "cssRules (styleSheets brokenSheetDoc ! 0) = Inr [cardRule, pageRule, bpkButtonRule]"
    "matches brokenSheetDoc divCard (selectorText pageRule) = Inl ''SyntaxError''"
    "matches brokenSheetDoc divCard (selectorText bpkButtonRule) = Inr True"
    by (simp_all add: brokenSheetDoc_def divCard_def pageRule_def bpkButtonRule_def exampleMatches_def)
  have f: "findCssRules brokenSheetDoc divCard = [cardRule, compoundRule]"
    "findCssRules mediaSheetDoc divCard = [cardRule, bpkButtonRule]"
    by (simp_all add: findCssRules_by_sheet brokenSheetDoc_def mediaSheetDoc_def divCard_def
        cardRule_def pageRule_def bpkButtonRule_def compoundRule_def mediaRule_def exampleMatches_def)
  have n: "bpkButtonRule \<notin> set [cardRule, compoundRule]"
    by (simp add: cardRule_def bpkButtonRule_def compoundRule_def)
  have o: "computeOverriddenProperties [cardRule, compoundRule] = []"
    "computeOverriddenProperties [cardRule, bpkButtonRule]
       = [\<lparr>key = ''color'', before = ''red'', after = ''blue'', rule = ''.Card''\<rparr>]"
    by (simp_all add: cardRule_def bpkButtonRule_def compoundRule_def resolver_defs)
  have e: "allElements brokenSheetDoc = [divCard]" "allElements mediaSheetDoc = [divCard]"
    "tagName divCard = ''div''" "hasOwnNonBackpackClass divCard"
    by (simp_all add: brokenSheetDoc_def mediaSheetDoc_def divCard_def hasOwnNonBackpackClass_def
        startsWith_def)
  have s: "scan brokenSheetDoc = []"
    "scan mediaSheetDoc = [\<lparr>element = divCard, overriddenProperties =
       [\<lparr>key = ''color'', before = ''red'', after = ''blue'', rule = ''.Card''\<rparr>]\<rparr>]"
    by (simp_all add: scan_def querySelectorAll_def scanSelector_def scanElement_def e f o)
  from m f n s show ?thesis by simp
qed

lemma scan_mem:
  "res \<in> set (scan doc) \<longleftrightarrow>
     (\<exists>e\<in>set (allElements doc). tagName e \<in> set scanSelector \<and> hasOwnNonBackpackClass e \<and>
        res = \<lparr>element = e, overriddenProperties = computeOverriddenProperties (findCssRules doc e)\<rparr> \<and>
        computeOverriddenProperties (findCssRules doc e) \<noteq> [])"
  by (auto simp: scan_def set_map_filter_id querySelectorAll_def scanElement_def Let_def image_iff
      split: if_splits)

text \<open>
  C9. Every result of \<open>scan\<close> has a non-empty list of overridden properties, and an
  element whose computed list is empty is the element of no result.
\<close>

theorem C9_results_have_overrides:
  "(\<forall>res\<in>set (scan doc). overriddenProperties res \<noteq> []) \<and>
   (\<forall>e. computeOverriddenProperties (findCssRules doc e) = [] \<longrightarrow>
        (\<forall>res\<in>set (scan doc). element res \<noteq> e))"
  by (auto simp: scan_mem)

text \<open>
  C9 at a document of four elements: only \<^verbatim>\<open><div class="Card Bpk_Button">\<close> is returned;
  \<^verbatim>\<open><li class="Other">\<close> has no overridden property and is not.
\<close>

theorem C9_witness:
  "scan exampleDoc = [\<lparr>element = divCard, overriddenProperties =
       [\<lparr>key = ''color'', before = ''red'', after = ''blue'', rule = ''.Card''\<rparr>]\<rparr>] \<and>
   overriddenProperties (hd (scan exampleDoc)) \<noteq> [] \<and>
   computeOverriddenProperties (findCssRules exampleDoc liOther) = [] \<and>
   (\<nexists>res. res \<in> set (scan exampleDoc) \<and> element res = liOther)"
proof -
  have s: "scan exampleDoc = [\<lparr>element = divCard, overriddenProperties =
       [\<lparr>key = ''color'', before = ''red'', after = ''blue'', rule = ''.Card''\<rparr>]\<rparr>]"
    by (simp add: exampleDoc_def divCard_def pCard_def spanBpk_def liOther_def
        cardRule_def bpkButtonRule_def scan_defs resolver_defs)
  have e: "computeOverriddenProperties (findCssRules exampleDoc liOther) = []"
    by (simp add: exampleDoc_def liOther_def cardRule_def bpkButtonRule_def scan_defs resolver_defs)
  from s have "hd (scan exampleDoc) \<in> set (scan exampleDoc)" by simp
  with C9_results_have_overrides[of exampleDoc] e s show ?thesis by blast
qed

text \<open>
  C10. The element of every result has one of the nine tag names of the selector list,
  and the elements of any other tag can be taken out of the document without changing
  the result: \<open>scan\<close> does not look at them.
\<close>

theorem C10_only_listed_tags:
  "(\<forall>res\<in>set (scan doc). tagName (element res) \<in>
        set [''div'', ''span'', ''h1'', ''h2'', ''h3'', ''h4'', ''li'', ''a'', ''button'']) \<and>
   scan doc = scan (doc\<lparr>allElements := filter (\<lambda>e. tagName e \<in>
        set [''div'', ''span'', ''h1'', ''h2'', ''h3'', ''h4'', ''li'', ''a'', ''button'']) (allElements doc)\<rparr>)"
proof -
  have "\<forall>res\<in>set (scan doc). tagName (element res) \<in> set scanSelector"
    by (auto simp: scan_mem)
  moreover have "scanElement (doc\<lparr>allElements := els\<rparr>) = scanElement doc" for els
    by (rule ext) (simp add: scanElement_def findCssRules_def)
  then have "scan doc = scan (doc\<lparr>allElements := filter (\<lambda>e. tagName e \<in> set scanSelector) (allElements doc)\<rparr>)"
    by (simp add: scan_def querySelectorAll_def)
  ultimately show ?thesis by (simp add: scanSelector_def)
qed

text \<open>
  C10 at the same document: \<^verbatim>\<open><p class="Card Bpk_Button">\<close> has the classes and the
  matched rules of the \<^verbatim>\<open>div\<close> that is reported, and is not reported.
\<close>

theorem C10_witness:
  "tagName (element (hd (scan exampleDoc))) = ''div'' \<and>
   pCard \<in> set (allElements exampleDoc) \<and> hasOwnNonBackpackClass pCard \<and>
   computeOverriddenProperties (findCssRules exampleDoc pCard) \<noteq> [] \<and>
   (\<nexists>res. res \<in> set (scan exampleDoc) \<and> element res = pCard)"
proof -
  have s: "scan exampleDoc = [\<lparr>element = divCard, overriddenProperties =
       [\<lparr>key = ''color'', before = ''red'', after = ''blue'', rule = ''.Card''\<rparr>]\<rparr>]"
    by (simp add: exampleDoc_def divCard_def pCard_def spanBpk_def liOther_def
        cardRule_def bpkButtonRule_def scan_defs resolver_defs)
  have p: "pCard \<in> set (allElements exampleDoc)" "hasOwnNonBackpackClass pCard"
    "computeOverriddenProperties (findCssRules exampleDoc pCard) \<noteq> []"
    "tagName pCard = ''p''"
    by (simp_all add: exampleDoc_def pCard_def cardRule_def bpkButtonRule_def scan_defs resolver_defs)
  from s have h: "hd (scan exampleDoc) \<in> set (scan exampleDoc)" "element (hd (scan exampleDoc)) = divCard" by simp_all
  have "element res \<noteq> pCard" if "res \<in> set (scan exampleDoc)" for res
  proof
    assume e: "element res = pCard"
    from C10_only_listed_tags[of exampleDoc, THEN conjunct1] that
    have "tagName (element res) \<in>
        set [''div'', ''span'', ''h1'', ''h2'', ''h3'', ''h4'', ''li'', ''a'', ''button'']" by blast
    with e p(4) show False by simp
  qed
  moreover have "tagName (element (hd (scan exampleDoc))) = ''div''"
    using h(2) by (simp add: divCard_def)
  ultimately show ?thesis using p by blast
qed

section \<open>The claim about the event emitter\<close>

lemma listener_isolated:
  "newPromise (tryCatch (h data) consoleError) w
     = (Normal, case h data w of (Normal, w') \<Rightarrow> w'
                              | (Throw e, w') \<Rightarrow> w'\<lparr>console := console w' @ [e]\<rparr>)"
  by (simp add: newPromise_def tryCatch_def consoleError_def split: prod.splits completion.splits)

lemma forEach_listeners:
  "forEach (\<lambda>handler. newPromise (tryCatch (handler data) consoleError)) hs w
     = (Normal, foldl (\<lambda>w' h. case h data w' of (Normal, w'') \<Rightarrow> w''
                              | (Throw e, w'') \<Rightarrow> w''\<lparr>console := console w'' @ [e]\<rparr>) w hs)"
  by (induction hs arbitrary: w) (simp_all add: listener_isolated)

lemma on_registers:
  "on em event h = Inr em' \<Longrightarrow>
     \<exists>hs. handlers em' event = Handlers (hs @ [h]) \<and>
          (handlers em event = Undefined \<and> hs = [] \<or> handlers em event = Handlers hs)"
  by (auto simp: on_def split: slot.splits)

text \<open>
  C8. For an event with registered listeners, \<open>send\<close> completes normally, and the
  world it leaves is the one obtained by running every listener in turn, each on the
  world left by the ones before it, an exception of a listener being added to the console
  and going no further. The statement after the call runs.
\<close>

theorem C8_listeners_run_independently:
  assumes "event \<noteq> []" and "handlers em event = Handlers hs"
  shows "send em event data w
           = (Normal, foldl (\<lambda>w' h. case h data w' of
                                (Normal, w'') \<Rightarrow> w''
                              | (Throw e, w'') \<Rightarrow> w''\<lparr>console := console w'' @ [e]\<rparr>) w hs) \<and>
         seq (send em event data) rest w = rest (snd (send em event data w))"
proof -
  have s: "send em event data w
           = (Normal, foldl (\<lambda>w' h. case h data w' of
                                (Normal, w'') \<Rightarrow> w''
                              | (Throw e, w'') \<Rightarrow> w''\<lparr>console := console w'' @ [e]\<rparr>) w hs)"
    using assms by (simp add: send_def forEach_listeners)
  then have "seq (send em event data) rest w = rest (snd (send em event data w))"
    by (simp add: seq_def)
  with s show ?thesis by blast
qed

text \<open>
  C8 at three listeners, the second throwing: all three run, the error is logged, and
  \<open>setState\<close> goes on to \<open>updateDisplay\<close>.
\<close>

theorem C8_witness:
  "send exampleEmitter ''change'' True exampleWorld
     = (Normal, exampleWorld\<lparr>console := [''Error: listener failed''],
                              page := [''first'', ''failing'', ''third'']\<rparr>) \<and>
   setState exampleEmitter True exampleWorld
     = (Normal, exampleWorld\<lparr>console := [''Error: listener failed''],
                              state := True,
                              innerLeft := ''calc(100% - (20px + 2px))'', innerBackground := ''#5f2'',
                              page := [''first'', ''failing'', ''third'']\<rparr>)"
proof -
  have h: "''change'' \<noteq> []"
    "handlers exampleEmitter ''change'' = Handlers [recordCall ''first'', failingHandler, recordCall ''third'']"
    by (simp_all add: exampleEmitter_def)
  have 1: "send exampleEmitter ''change'' True exampleWorld
     = (Normal, exampleWorld\<lparr>console := [''Error: listener failed''],
                              page := [''first'', ''failing'', ''third'']\<rparr>)"
    using C8_listeners_run_independently[OF h, of True exampleWorld]
    by (simp add: recordCall_def failingHandler_def exampleWorld_def)
  have "setState exampleEmitter True exampleWorld
     = (Normal, exampleWorld\<lparr>console := [''Error: listener failed''],
                              state := True,
                              innerLeft := ''calc(100% - (20px + 2px))'', innerBackground := ''#5f2'',
                              page := [''first'', ''failing'', ''third'']\<rparr>)"
    using C8_listeners_run_independently[OF h, of True "exampleWorld\<lparr>state := True\<rparr>" updateDisplay]
    by (simp add: setState_def seq_def recordCall_def failingHandler_def exampleWorld_def updateDisplay_def)
  with 1 show ?thesis by blast
qed

section \<open>The claim about re-scanning\<close>

lemma run_Nil: "run [] = scriptStart"
  by (simp add: run_def)

lemma run_snoc: "run (signals @ [x]) = step (run signals) x"
  by (simp add: run_def)

lemma start_state:
  "scriptStart = \<lparr>updateTimeout = None, nextHandle = 1, timers = [], now = 0, scans = 1\<rparr>"
  by (simp add: scriptStart_def update_def)

lemma first_signal:
  "throttledUpdate \<lparr>updateTimeout = None, nextHandle = n, timers = [], now = t, scans = c\<rparr>
     = \<lparr>updateTimeout = Some n, nextHandle = n + 1, timers = [(n, t + 500)], now = t, scans = c\<rparr>"
  by (simp add: throttledUpdate_def truthy_def setTimeout_def)

lemma later_signal:
  "0 < h \<Longrightarrow> throttledUpdate \<lparr>updateTimeout = Some h, nextHandle = n, timers = ts, now = t, scans = c\<rparr>
     = \<lparr>updateTimeout = Some h, nextHandle = n, timers = ts, now = t, scans = c\<rparr>"
  by (simp add: throttledUpdate_def truthy_def)

lemma timer_fires:
  "due \<le> t + d \<Longrightarrow>
   elapse d \<lparr>updateTimeout = Some h, nextHandle = n, timers = [(h, due)], now = t, scans = c\<rparr>
     = \<lparr>updateTimeout = Some h, nextHandle = n, timers = [], now = t + d, scans = c + 1\<rparr>"
  by (simp add: elapse_def fireTimer_def timerCallback_def clearTimeout_def update_def)

lemma no_timer:
  "elapse d \<lparr>updateTimeout = u, nextHandle = n, timers = [], now = t, scans = c\<rparr>
     = \<lparr>updateTimeout = u, nextHandle = n, timers = [], now = t + d, scans = c\<rparr>"
  by (simp add: elapse_def)

text \<open>Any number of signals within the first window are answered by one scan.\<close>

lemma signals_in_one_window:
  "run (Mutation # replicate n Mutation)
     = \<lparr>updateTimeout = Some 1, nextHandle = 2, timers = [(1, 500)], now = 0, scans = 1\<rparr>"
proof (induction n)
  case 0
  show ?case using run_snoc[of "[]" Mutation]
    by (simp add: run_Nil start_state first_signal)
next
  case (Suc n)
  have "Mutation # replicate (Suc n) Mutation = (Mutation # replicate n Mutation) @ [Mutation]"
    by (simp add: replicate_append_same)
  then have "run (Mutation # replicate (Suc n) Mutation) = step (run (Mutation # replicate n Mutation)) Mutation"
    by (simp only: run_snoc)
  with Suc show ?case by (simp add: later_signal)
qed

lemma first_burst_triggers_one_scan:
  "run (Mutation # replicate n Mutation @ [Elapse 500])
     = \<lparr>updateTimeout = Some 1, nextHandle = 2, timers = [], now = 500, scans = 2\<rparr>"
  using run_snoc[of "Mutation # replicate n Mutation" "Elapse 500"]
  by (simp add: signals_in_one_window timer_fires)

text \<open>After that scan no other follows, whatever the signals.\<close>

lemma settled_step: "settled s \<Longrightarrow> settled (step s sig)"
proof (cases sig)
  case Mutation
  assume "settled s"
  then show ?thesis unfolding Mutation
    by (auto simp: settled_def throttledUpdate_def truthy_def setTimeout_def)
next
  case (Elapse d)
  assume "settled s"
  then consider
    (idle) "updateTimeout s = None" "timers s = []" "scans s = 1" "0 < nextHandle s"
  | (armed) h due where "updateTimeout s = Some h" "0 < h" "timers s = [(h, due)]" "scans s = 1"
  | (fired) h where "updateTimeout s = Some h" "0 < h" "timers s = []" "scans s = 2"
    by (auto simp: settled_def)
  then show ?thesis
  proof cases
    case idle
    then show ?thesis unfolding Elapse by (simp add: settled_def elapse_def)
  next
    case armed
    show ?thesis
    proof (cases "due \<le> now s + d")
      case True
      with armed show ?thesis unfolding Elapse
        by (simp add: settled_def elapse_def fireTimer_def timerCallback_def clearTimeout_def update_def)
    next
      case False
      with armed show ?thesis unfolding Elapse by (simp add: settled_def elapse_def)
    qed
  next
    case fired
    then show ?thesis unfolding Elapse by (simp add: settled_def elapse_def)
  qed
qed

lemma settled_run: "settled s \<Longrightarrow> settled (foldl step s sigs)"
  by (induction sigs arbitrary: s) (simp_all add: settled_step)

lemma at_most_one_rescan: "scans (run signals) \<le> 2"
proof -
  have "settled scriptStart" by (simp add: settled_def scriptStart_def update_def)
  then have "settled (run signals)" unfolding run_def by (rule settled_run)
  then show ?thesis by (auto simp: settled_def)
qed

text \<open>
  C7. The claim: every burst of mutation signals triggers one scan after the settling
  delay. The timer's callback clears the timer and leaves \<^verbatim>\<open>updateTimeout\<close> set, so
  \<^verbatim>\<open>throttledUpdate\<close> returns at once for every later signal: three signals and 500 ms
  give the second scan (the first is the script's own), and two more signals a second
  later, with 500 ms more, give no third.
\<close>

theorem C7_later_signals_trigger_no_scan:
  "run [Mutation, Mutation, Mutation, Elapse 500]
     = \<lparr>updateTimeout = Some 1, nextHandle = 2, timers = [], now = 500, scans = 2\<rparr> \<and>
   run [Mutation, Mutation, Mutation, Elapse 500, Elapse 1000, Mutation, Mutation, Elapse 500]
     = \<lparr>updateTimeout = Some 1, nextHandle = 2, timers = [], now = 2000, scans = 2\<rparr>"
proof -
  have 1: "run [Mutation] = \<lparr>updateTimeout = Some 1, nextHandle = 2, timers = [(1, 500)], now = 0, scans = 1\<rparr>"
    using run_snoc[of "[]" Mutation] by (simp add: run_Nil start_state first_signal)
  have 2: "run [Mutation, Mutation] = \<lparr>updateTimeout = Some 1, nextHandle = 2, timers = [(1, 500)], now = 0, scans = 1\<rparr>"
    using run_snoc[of "[Mutation]" Mutation] by (simp add: 1 later_signal)
  have 3: "run [Mutation, Mutation, Mutation] = \<lparr>updateTimeout = Some 1, nextHandle = 2, timers = [(1, 500)], now = 0, scans = 1\<rparr>"
    using run_snoc[of "[Mutation, Mutation]" Mutation] by (simp add: 2 later_signal)
  have 4: "run [Mutation, Mutation, Mutation, Elapse 500] = \<lparr>updateTimeout = Some 1, nextHandle = 2, timers = [], now = 500, scans = 2\<rparr>"
    using run_snoc[of "[Mutation, Mutation, Mutation]" "Elapse 500"] by (simp add: 3 timer_fires)
  have 5: "run [Mutation, Mutation, Mutation, Elapse 500, Elapse 1000] = \<lparr>updateTimeout = Some 1, nextHandle = 2, timers = [], now = 1500, scans = 2\<rparr>"
    using run_snoc[of "[Mutation, Mutation, Mutation, Elapse 500]" "Elapse 1000"] by (simp add: 4 no_timer)
  have 6: "run [Mutation, Mutation, Mutation, Elapse 500, Elapse 1000, Mutation] = \<lparr>updateTimeout = Some 1, nextHandle = 2, timers = [], now = 1500, scans = 2\<rparr>"
    using run_snoc[of "[Mutation, Mutation, Mutation, Elapse 500, Elapse 1000]" Mutation] by (simp add: 5 later_signal)
  have 7: "run [Mutation, Mutation, Mutation, Elapse 500, Elapse 1000, Mutation, Mutation] = \<lparr>updateTimeout = Some 1, nextHandle = 2, timers = [], now = 1500, scans = 2\<rparr>"
    using run_snoc[of "[Mutation, Mutation, Mutation, Elapse 500, Elapse 1000, Mutation]" Mutation] by (simp add: 6 later_signal)
  have 8: "run [Mutation, Mutation, Mutation, Elapse 500, Elapse 1000, Mutation, Mutation, Elapse 500] = \<lparr>updateTimeout = Some 1, nextHandle = 2, timers = [], now = 2000, scans = 2\<rparr>"
    using run_snoc[of "[Mutation, Mutation, Mutation, Elapse 500, Elapse 1000, Mutation, Mutation]" "Elapse 500"] by (simp add: 7 no_timer)
  from 4 8 show ?thesis by blast
qed

end
